theory Spec2Isabelle
  imports Main "HOL-Library.Sublist"
begin

section \<open>Python values used by \<^verbatim>\<open>dumps2extxyz.py\<close>\<close>

text \<open>
  The embedding follows \<^verbatim>\<open>process_dump_file\<close> of \<^verbatim>\<open>src/dumps2extxyz.py\<close>.
  A text stream is the list of lines that successive \<^verbatim>\<open>f.readline()\<close> calls return;
  after the last line \<^verbatim>\<open>readline\<close> returns the empty string, as often as it is
  called. A character is a code point below 256. Python's \<^verbatim>\<open>int\<close> is \<open>int\<close>;
  Python's \<^verbatim>\<open>float\<close> is the binary64 model \<open>pyfloat\<close> below. An uncaught exception
  is the \<open>Inl\<close> of a sum.
\<close>

datatype py_error = ValueError | IndexError

type_synonym 'a result = "py_error + 'a"

type_synonym stream = "string list"

definition readline :: "stream \<Rightarrow> string \<times> stream" where
  "readline f = (case f of [] \<Rightarrow> ([], []) | l # ls \<Rightarrow> (l, ls))"

subsection \<open>Strings: whitespace, \<^verbatim>\<open>strip\<close>, \<^verbatim>\<open>split\<close>, \<^verbatim>\<open>in\<close>, \<^verbatim>\<open>join\<close>\<close>

definition is_space :: "char \<Rightarrow> bool" where
  "is_space c = ((of_char c :: int) \<in> set [9, 10, 11, 12, 13, 28, 29, 30, 31, 32, 133, 160])"

definition is_digit :: "char \<Rightarrow> bool" where
  "is_digit c = (48 \<le> (of_char c :: int) \<and> (of_char c :: int) \<le> 57)"

definition digit_val :: "char \<Rightarrow> int" where
  "digit_val c = of_char c - 48"

definition strip :: "string \<Rightarrow> string" where
  "strip s = rev (dropWhile is_space (rev (dropWhile is_space s)))"

text \<open>\<^verbatim>\<open>s.split()\<close>: the maximal runs of non-whitespace characters, in order. The
  second argument is the token being read.\<close>

fun split_acc :: "string \<Rightarrow> string \<Rightarrow> string list" where
  "split_acc [] tok = (if tok = [] then [] else [tok])"
| "split_acc (c # cs) tok =
     (if is_space c then (if tok = [] then split_acc cs [] else tok # split_acc cs [])
      else split_acc cs (tok @ [c]))"

definition split :: "string \<Rightarrow> string list" where
  "split s = split_acc s []"

text \<open>\<^verbatim>\<open>p in s\<close> for strings: \<open>p\<close> occurs in \<open>s\<close> as a contiguous substring.\<close>

fun str_in :: "string \<Rightarrow> string \<Rightarrow> bool" where
  "str_in p [] = (p = [])"
| "str_in p (c # cs) = (prefix p (c # cs) \<or> str_in p cs)"

definition newline :: char where
  "newline = char_of (10 :: nat)"

definition dquote :: char where
  "dquote = char_of (34 :: nat)"

text \<open>\<^verbatim>\<open>"\n".join(xs)\<close>\<close>

fun join_nl :: "string list \<Rightarrow> string" where
  "join_nl [] = []"
| "join_nl [x] = x"
| "join_nl (x # y # ys) = x @ newline # join_nl (y # ys)"

subsection \<open>\<^verbatim>\<open>int(s)\<close> and \<^verbatim>\<open>str(n)\<close>\<close>

text \<open>Underscores in a numeric string are accepted only between two digits.\<close>

fun underscores_ok :: "char option \<Rightarrow> string \<Rightarrow> bool" where
  "underscores_ok prev [] = True"
| "underscores_ok prev (c # cs) =
     (if c = CHR ''_''
      then (case prev of None \<Rightarrow> False | Some p \<Rightarrow> is_digit p) \<and>
           (case cs of [] \<Rightarrow> False | d # _ \<Rightarrow> is_digit d) \<and> underscores_ok (Some c) cs
      else underscores_ok (Some c) cs)"

definition drop_underscores :: "string \<Rightarrow> string option" where
  "drop_underscores s =
     (if underscores_ok None s then Some (filter (\<lambda>c. c \<noteq> CHR ''_'') s) else None)"

definition digits_val :: "string \<Rightarrow> int" where
  "digits_val ds = foldl (\<lambda>a c. 10 * a + digit_val c) 0 ds"

text \<open>An optional sign in front of a string: the sign (\<open>True\<close> for minus) and the rest.\<close>

definition take_sign :: "string \<Rightarrow> bool \<times> string" where
  "take_sign s =
     (case s of [] \<Rightarrow> (False, [])
      | c # cs \<Rightarrow> if c = CHR ''-'' then (True, cs) else if c = CHR ''+'' then (False, cs)
                 else (False, s))"

text \<open>\<^verbatim>\<open>int(s)\<close> in base 10: surrounding whitespace, an optional sign, decimal
  digits with single underscores between them; anything else is a \<^verbatim>\<open>ValueError\<close>.
  (The interpreter's configurable limit on the number of digits is not modelled.)\<close>

definition py_int :: "string \<Rightarrow> int result" where
  "py_int s =
     (case drop_underscores (strip s) of
        None \<Rightarrow> Inl ValueError
      | Some t \<Rightarrow>
          (case take_sign t of (neg, ds) \<Rightarrow>
             if ds = [] \<or> \<not> list_all is_digit ds then Inl ValueError
             else Inr (if neg then - digits_val ds else digits_val ds)))"

function dec_digits :: "int \<Rightarrow> string" where
  "dec_digits n =
     (if n < 10 then [char_of (48 + (if n < 0 then 0 else n))]
      else dec_digits (n div 10) @ [char_of (48 + n mod 10)])"
  by pat_completeness auto
termination
  by (relation "measure nat") auto

declare dec_digits.simps [simp del]

definition str_int :: "int \<Rightarrow> string" where
  "str_int n = (if n < 0 then CHR ''-'' # dec_digits (- n) else dec_digits n)"

subsection \<open>\<^verbatim>\<open>float\<close>: IEEE 754 binary64\<close>

text \<open>
  \<open>Finite neg m e\<close> is the double \<open>\<plusminus> m * 2 ^ e\<close>: a zero has \<open>m = 0\<close> and \<open>e = 0\<close>,
  a normal number \<open>2 ^ 52 \<le> m < 2 ^ 53\<close> and \<open>- 1074 \<le> e \<le> 971\<close>, a subnormal number
  \<open>0 < m < 2 ^ 52\<close> and \<open>e = - 1074\<close>. Every operation rounds to nearest, ties to even.
\<close>

datatype pyfloat = Finite bool int int | Infinity bool | NaN

function bitlen :: "int \<Rightarrow> int" where
  "bitlen n = (if n \<le> 0 then 0 else 1 + bitlen (n div 2))"
  by pat_completeness auto
termination
  by (relation "measure nat") auto

declare bitlen.simps [simp del]

text \<open>The fraction \<open>n / d\<close> rounded to an integer, for \<open>0 \<le> n\<close> and \<open>0 < d\<close>.\<close>

definition round_half_even :: "int \<Rightarrow> int \<Rightarrow> int" where
  "round_half_even n d =
     (let q = n div d; r = n mod d
      in if 2 * r < d then q else if d < 2 * r then q + 1 else if even q then q else q + 1)"

text \<open>The fraction \<open>n / d / 2 ^ e\<close> as a numerator and a denominator.\<close>

definition scale2 :: "int \<Rightarrow> int \<Rightarrow> int \<Rightarrow> int \<times> int" where
  "scale2 n d e = (if 0 \<le> e then (n, d * 2 ^ nat e) else (n * 2 ^ nat (- e), d))"

text \<open>The double nearest to \<open>\<plusminus> n / d\<close>, for \<open>0 \<le> n\<close> and \<open>0 < d\<close>.\<close>

definition round_double :: "bool \<Rightarrow> int \<Rightarrow> int \<Rightarrow> pyfloat" where
  "round_double neg n d =
     (if n = 0 then Finite neg 0 0
      else
        let e0 = bitlen n - bitlen d - 53;
            e1 = (case scale2 n d e0 of (n0, d0) \<Rightarrow> if 2 ^ 53 \<le> n0 div d0 then e0 + 1 else e0);
            e = max e1 (- 1074);
            q = (case scale2 n d e of (n1, d1) \<Rightarrow> round_half_even n1 d1)
        in if q = 0 then Finite neg 0 0
           else if q = 2 ^ 53
             then (if 971 < e + 1 then Infinity neg else Finite neg (2 ^ 52) (e + 1))
           else if 971 < e then Infinity neg
           else Finite neg q e)"

fun float_neg :: "pyfloat \<Rightarrow> pyfloat" where
  "float_neg (Finite s m e) = Finite (\<not> s) m e"
| "float_neg (Infinity s) = Infinity (\<not> s)"
| "float_neg NaN = NaN"

definition signed :: "bool \<Rightarrow> int \<Rightarrow> int" where
  "signed neg m = (if neg then - m else m)"

fun float_add :: "pyfloat \<Rightarrow> pyfloat \<Rightarrow> pyfloat" where
  "float_add NaN y = NaN"
| "float_add x NaN = NaN"
| "float_add (Infinity s) (Infinity t) = (if s = t then Infinity s else NaN)"
| "float_add (Infinity s) y = Infinity s"
| "float_add x (Infinity t) = Infinity t"
| "float_add (Finite s m e) (Finite t k j) =
     (let l = min e j;
          v = signed s (m * 2 ^ nat (e - l)) + signed t (k * 2 ^ nat (j - l))
      in if v = 0 then Finite (s \<and> t) 0 0
         else (case scale2 \<bar>v\<bar> 1 (- l) of (n, d) \<Rightarrow> round_double (v < 0) n d))"

definition float_sub :: "pyfloat \<Rightarrow> pyfloat \<Rightarrow> pyfloat" where
  "float_sub x y = float_add x (float_neg y)"

text \<open>\<^verbatim>\<open>0.0\<close>\<close>

definition float_zero :: pyfloat where
  "float_zero = Finite False 0 0"

subsubsection \<open>\<^verbatim>\<open>float(s)\<close>\<close>

definition to_lower :: "char \<Rightarrow> char" where
  "to_lower c =
     (if 65 \<le> (of_char c :: int) \<and> (of_char c :: int) \<le> 90 then char_of ((of_char c :: int) + 32)
      else c)"

text \<open>A decimal numeral \<^verbatim>\<open>digits [. digits] [e [sign] digits]\<close> with at least one digit
  before the exponent: its digits as an integer and its decimal exponent.\<close>

definition parse_decimal :: "string \<Rightarrow> (int \<times> int) option" where
  "parse_decimal t =
     (let ip = takeWhile is_digit t;
          r1 = dropWhile is_digit t;
          fp = (case r1 of [] \<Rightarrow> [] | c # cs \<Rightarrow> if c = CHR ''.'' then takeWhile is_digit cs else []);
          r2 = (case r1 of [] \<Rightarrow> [] | c # cs \<Rightarrow> if c = CHR ''.'' then dropWhile is_digit cs else r1)
      in if ip @ fp = [] then None
         else (case r2 of
                 [] \<Rightarrow> Some (digits_val (ip @ fp), - int (length fp))
               | c # cs \<Rightarrow>
                   if c = CHR ''e'' \<or> c = CHR ''E''
                   then (case take_sign cs of (eneg, ed) \<Rightarrow>
                           if ed = [] \<or> \<not> list_all is_digit ed then None
                           else Some (digits_val (ip @ fp),
                                      (if eneg then - digits_val ed else digits_val ed)
                                        - int (length fp)))
                   else None))"

text \<open>\<^verbatim>\<open>float(s)\<close>: surrounding whitespace, an optional sign, then \<^verbatim>\<open>inf\<close>,
  \<^verbatim>\<open>infinity\<close> or \<^verbatim>\<open>nan\<close> in any case, or a decimal numeral, which is rounded to the
  nearest double; anything else is a \<^verbatim>\<open>ValueError\<close>.\<close>

definition py_float :: "string \<Rightarrow> pyfloat result" where
  "py_float s =
     (case drop_underscores (strip s) of
        None \<Rightarrow> Inl ValueError
      | Some t \<Rightarrow>
          (case take_sign t of (neg, body) \<Rightarrow>
             if map to_lower body = ''inf'' \<or> map to_lower body = ''infinity'' then Inr (Infinity neg)
             else if map to_lower body = ''nan'' then Inr NaN
             else (case parse_decimal body of
                     None \<Rightarrow> Inl ValueError
                   | Some (dv, ex) \<Rightarrow>
                       Inr (if 0 \<le> ex then round_double neg (dv * 10 ^ nat ex) 1
                            else round_double neg dv (10 ^ nat (- ex))))))"

subsubsection \<open>\<^verbatim>\<open>str(x)\<close> and \<^verbatim>\<open>format(x, ".8f")\<close>\<close>

text \<open>
  \<^verbatim>\<open>str\<close> of a float is its \<^verbatim>\<open>repr\<close>: the shortest decimal string that reads back as
  the same double. For the double \<open>m * 2 ^ e\<close> and a power of ten \<open>10 ^ k\<close>,
  \<open>repr_candidate\<close> is the multiple \<open>c\<close> of \<open>10 ^ k\<close> nearest to the double among those
  that round to it, if there is one: the rounding interval reaches half way to the
  neighbouring doubles and contains its end points when \<open>m\<close> is even.
\<close>

definition repr_candidate :: "int \<Rightarrow> int \<Rightarrow> int \<Rightarrow> int option" where
  "repr_candidate m e k =
     (let u = e - 2;
          p = 2 ^ nat u * 10 ^ nat (- k);
          q = 2 ^ nat (- u) * 10 ^ nat k;
          lo = (4 * m - (if m = 2 ^ 52 \<and> - 1074 < e then 1 else 2)) * p;
          hi = (4 * m + 2) * p;
          cmin = (if even m then (lo + q - 1) div q else lo div q + 1);
          cmax = (if even m then hi div q else (hi + q - 1) div q - 1);
          c = round_half_even (4 * m * p) q
      in if cmin \<le> cmax then Some (min cmax (max cmin c)) else None)"

function repr_search :: "int \<Rightarrow> int \<Rightarrow> int \<Rightarrow> int \<times> int" where
  "repr_search m e k =
     (case repr_candidate m e k of
        Some c \<Rightarrow> (c, k)
      | None \<Rightarrow> if k \<le> - 400 then (0, k) else repr_search m e (k - 1))"
  by pat_completeness auto
termination
  by (relation "measure (\<lambda>(m, e, k). nat (k + 400))") auto

declare repr_search.simps [simp del]

text \<open>The digits of the shortest string and the position of the decimal point after
  the first of them. The search starts at a power of ten above the double.\<close>

definition repr_digits :: "int \<Rightarrow> int \<Rightarrow> string \<times> int" where
  "repr_digits m e =
     (let top = (case scale2 (m + 1) 1 (- e) of (n, d) \<Rightarrow> n div d)
      in case repr_search m e (int (length (dec_digits top))) of
           (c, k) \<Rightarrow> (dec_digits c, int (length (dec_digits c)) + k))"

definition pad_zeros :: "nat \<Rightarrow> string \<Rightarrow> string" where
  "pad_zeros w s = replicate (w - length s) (CHR ''0'') @ s"

definition format_short :: "string \<Rightarrow> int \<Rightarrow> string" where
  "format_short ds decpt =
     (if decpt \<le> - 4 \<or> 16 < decpt
      then (case ds of [] \<Rightarrow> [] | d # r \<Rightarrow> d # (if r = [] then [] else CHR ''.'' # r))
           @ ''e'' @ (if decpt - 1 < 0 then ''-'' else ''+'') @ pad_zeros 2 (dec_digits \<bar>decpt - 1\<bar>)
      else if decpt \<le> 0 then ''0.'' @ replicate (nat (- decpt)) (CHR ''0'') @ ds
      else if int (length ds) \<le> decpt
        then ds @ replicate (nat (decpt - int (length ds))) (CHR ''0'') @ ''.0''
      else take (nat decpt) ds @ ''.'' @ drop (nat decpt) ds)"

definition float_str :: "pyfloat \<Rightarrow> string" where
  "float_str x =
     (case x of
        NaN \<Rightarrow> ''nan''
      | Infinity neg \<Rightarrow> (if neg then ''-inf'' else ''inf'')
      | Finite neg m e \<Rightarrow>
          (if neg then ''-'' else []) @
          (if m = 0 then ''0.0'' else (case repr_digits m e of (ds, decpt) \<Rightarrow> format_short ds decpt)))"

text \<open>\<^verbatim>\<open>f"{x:.8f}"\<close>: the exact value rounded to eight decimals.\<close>

definition format_8f :: "pyfloat \<Rightarrow> string" where
  "format_8f x =
     (case x of
        NaN \<Rightarrow> ''nan''
      | Infinity neg \<Rightarrow> (if neg then ''-inf'' else ''inf'')
      | Finite neg m e \<Rightarrow>
          (let q = (case scale2 (m * 10 ^ 8) 1 (- e) of (n, d) \<Rightarrow> round_half_even n d)
           in (if neg then ''-'' else []) @ dec_digits (q div 10 ^ 8) @ ''.'' @
              pad_zeros 8 (dec_digits (q mod 10 ^ 8))))"

section \<open>The program\<close>

subsection \<open>Configuration\<close>

text \<open>The module's globals \<^verbatim>\<open>MAX_TIMESTEP\<close>, \<^verbatim>\<open>TIMESTEP_INTERVAL\<close> and
  \<^verbatim>\<open>ATOM_TYPE_MAP\<close>.\<close>

record config =
  MAX_TIMESTEP :: int
  TIMESTEP_INTERVAL :: int
  ATOM_TYPE_MAP :: "string \<rightharpoonup> string"


text \<open>
  What \<^verbatim>\<open>process_dump_file\<close> uses of its argument \<^verbatim>\<open>dump_file\<close> apart from the
  stream: \<open>base_name\<close> is \<^verbatim>\<open>os.path.splitext(os.path.basename(dump_file))[0]\<close> and
  \<open>rel_path\<close> is \<^verbatim>\<open>os.path.relpath(os.path.dirname(dump_file), INPUT_DIR)\<close>.
\<close>

record dump_file =
  base_name :: string
  rel_path :: string

subsection \<open>\<^verbatim>\<open>range\<close>, \<^verbatim>\<open>dict.get\<close>, slices and unpacking\<close>

function range_up :: "int \<Rightarrow> int \<Rightarrow> int \<Rightarrow> int list" where
  "range_up i stop step = (if 0 < step \<and> i < stop then i # range_up (i + step) stop step else [])"
  by pat_completeness auto
termination
  by (relation "measure (\<lambda>(i, stop, step). nat (stop - i))") auto

declare range_up.simps [simp del]

function range_down :: "int \<Rightarrow> int \<Rightarrow> int \<Rightarrow> int list" where
  "range_down i stop step =
     (if step < 0 \<and> stop < i then i # range_down (i + step) stop step else [])"
  by pat_completeness auto
termination
  by (relation "measure (\<lambda>(i, stop, step). nat (i - stop))") auto

declare range_down.simps [simp del]

text \<open>\<^verbatim>\<open>list(range(start, stop, step))\<close>\<close>

definition py_range :: "int \<Rightarrow> int \<Rightarrow> int \<Rightarrow> int list result" where
  "py_range start stop step =
     (if step = 0 then Inl ValueError
      else if 0 < step then Inr (range_up start stop step)
      else Inr (range_down start stop step))"

text \<open>\<^verbatim>\<open>d.get(k, default)\<close>\<close>

definition dict_get :: "('k \<rightharpoonup> 'v) \<Rightarrow> 'k \<Rightarrow> 'v \<Rightarrow> 'v" where
  "dict_get d k dflt = (case d k of None \<Rightarrow> dflt | Some v \<Rightarrow> v)"

text \<open>\<^verbatim>\<open>xs[a:b]\<close> for \<open>0 \<le> a \<le> b\<close>\<close>

definition slice :: "nat \<Rightarrow> nat \<Rightarrow> 'a list \<Rightarrow> 'a list" where
  "slice a b xs = take (b - a) (drop a xs)"

text \<open>\<^verbatim>\<open>a, b = map(float, toks)\<close> and \<^verbatim>\<open>a, b, c = map(float, toks)\<close>: a token that is no
  float, a missing value and a value too many are all a \<^verbatim>\<open>ValueError\<close>.\<close>

definition unpack2 :: "string list \<Rightarrow> (pyfloat \<times> pyfloat) result" where
  "unpack2 toks =
     (case toks of
        [a, b] \<Rightarrow>
          (case py_float a of Inl e \<Rightarrow> Inl e | Inr x \<Rightarrow>
           case py_float b of Inl e \<Rightarrow> Inl e | Inr y \<Rightarrow> Inr (x, y))
      | _ \<Rightarrow> Inl ValueError)"

definition unpack3 :: "string list \<Rightarrow> (pyfloat \<times> pyfloat \<times> pyfloat) result" where
  "unpack3 toks =
     (case toks of
        [a, b, c] \<Rightarrow>
          (case py_float a of Inl e \<Rightarrow> Inl e | Inr x \<Rightarrow>
           case py_float b of Inl e \<Rightarrow> Inl e | Inr y \<Rightarrow>
           case py_float c of Inl e \<Rightarrow> Inl e | Inr z \<Rightarrow> Inr (x, y, z))
      | _ \<Rightarrow> Inl ValueError)"

subsection \<open>\<^verbatim>\<open>process_dump_file\<close>\<close>

text \<open>Line 65: \<^verbatim>\<open>desired_timesteps = list(range(0, MAX_TIMESTEP + 1, TIMESTEP_INTERVAL))\<close>\<close>

definition desired_timesteps :: "config \<Rightarrow> int list result" where
  "desired_timesteps cfg = py_range 0 (MAX_TIMESTEP cfg + 1) (TIMESTEP_INTERVAL cfg)"

text \<open>\<^verbatim>\<open>for _ in range(n): f.readline()\<close>\<close>

primrec skip_lines :: "nat \<Rightarrow> stream \<Rightarrow> stream" where
  "skip_lines 0 f = f"
| "skip_lines (Suc n) f = skip_lines n (snd (readline f))"

text \<open>
  Lines 81 to 87, the branch of a frame that is not wanted. \<open>None\<close> is the \<^verbatim>\<open>break\<close> of
  line 83, \<open>Some f'\<close> the \<^verbatim>\<open>continue\<close> of line 87 with the stream where it then stands.
\<close>

definition skip_frame :: "stream \<Rightarrow> stream option result" where
  "skip_frame f =
     (case readline (skip_lines 6 f) of (line, f1) \<Rightarrow>
        if line = [] then Inr None
        else (case readline f1 of (l, f2) \<Rightarrow>
                (case split l of
                   [] \<Rightarrow> Inl IndexError
                 | tok # _ \<Rightarrow>
                     (case py_int tok of
                        Inl e \<Rightarrow> Inl e
                      | Inr num_atoms \<Rightarrow> Inr (Some (skip_lines (nat num_atoms) f2))))))"

text \<open>An entry of \<^verbatim>\<open>atoms_data\<close>: \<^verbatim>\<open>(mapped_type, x, y, z, fx, fy, fz)\<close>.\<close>

type_synonym atom = "string \<times> pyfloat \<times> pyfloat \<times> pyfloat \<times> pyfloat \<times> pyfloat \<times> pyfloat"

text \<open>Lines 109 to 114, on the line just read: the entry for \<^verbatim>\<open>atoms_data\<close> and
  \<^verbatim>\<open>energy\<close>.\<close>

definition parse_atom_line :: "(string \<rightharpoonup> string) \<Rightarrow> string \<Rightarrow> (atom \<times> pyfloat) result" where
  "parse_atom_line tm line =
     (let parts = split line
      in if length parts \<le> 1 then Inl IndexError
         else
           let atom_type = parts ! 1;
               mapped_type = dict_get tm atom_type ''X''
           in case unpack3 (slice 2 5 parts) of Inl e \<Rightarrow> Inl e | Inr (x, y, z) \<Rightarrow>
              case unpack3 (slice 8 11 parts) of Inl e \<Rightarrow> Inl e | Inr (fx, fy, fz) \<Rightarrow>
              if length parts \<le> 11 then Inl IndexError
              else case py_float (parts ! 11) of Inl e \<Rightarrow> Inl e | Inr energy \<Rightarrow>
                   Inr ((mapped_type, x, y, z, fx, fy, fz), energy))"

text \<open>Lines 108 to 116: the loop over \<^verbatim>\<open>range(num_atoms)\<close>, with \<^verbatim>\<open>atoms_data\<close> and
  \<^verbatim>\<open>total_energy\<close> as they stand.\<close>

fun read_atoms ::
  "(string \<rightharpoonup> string) \<Rightarrow> nat \<Rightarrow> stream \<Rightarrow> atom list \<Rightarrow> pyfloat \<Rightarrow>
   (atom list \<times> pyfloat \<times> stream) result" where
  "read_atoms tm 0 f atoms_data total_energy = Inr (atoms_data, total_energy, f)"
| "read_atoms tm (Suc n) f atoms_data total_energy =
     (case readline f of (line, f') \<Rightarrow>
        (case parse_atom_line tm line of
           Inl e \<Rightarrow> Inl e
         | Inr (a, energy) \<Rightarrow>
             read_atoms tm n f' (atoms_data @ [a]) (float_add total_energy energy)))"

text \<open>Lines 119 to 121\<close>

definition category :: "dump_file \<Rightarrow> int \<Rightarrow> string" where
  "category df timestep =
     (if rel_path df \<noteq> ''.''
      then rel_path df @ ''/'' @ base_name df @ ''-'' @ str_int timestep
      else base_name df @ ''-'' @ str_int timestep)"

text \<open>Lines 124 to 127\<close>

definition metadata_line :: "pyfloat \<Rightarrow> pyfloat \<Rightarrow> pyfloat \<Rightarrow> string \<Rightarrow> pyfloat \<Rightarrow> string" where
  "metadata_line lx ly lz cat total_energy =
     ''Lattice='' @ [dquote] @ float_str lx @ '' 0.0 0.0 0.0 '' @ float_str ly @
     '' 0.0 0.0 0.0 '' @ float_str lz @ [dquote] @ '' '' @
     ''Properties=species:S:1:pos:R:3:forces:R:3 '' @
     ''name=Amorphous_Bulk category='' @ cat @ '' '' @
     ''energy='' @ float_str total_energy @ '' pbc='' @ [dquote] @ ''T T T'' @ [dquote]"

text \<open>Line 131\<close>

definition atom_line :: "atom \<Rightarrow> string" where
  "atom_line a =
     (case a of (atom_type, x, y, z, fx, fy, fz) \<Rightarrow>
        atom_type @ '' '' @ format_8f x @ '' '' @ format_8f y @ '' '' @ format_8f z @ '' '' @
        format_8f fx @ '' '' @ format_8f fy @ '' '' @ format_8f fz)"

text \<open>Lines 123 to 132: the list \<^verbatim>\<open>frame_content\<close>\<close>

definition frame_content ::
  "int \<Rightarrow> pyfloat \<Rightarrow> pyfloat \<Rightarrow> pyfloat \<Rightarrow> string \<Rightarrow> pyfloat \<Rightarrow> atom list \<Rightarrow> string list" where
  "frame_content num_atoms lx ly lz cat total_energy atoms_data =
     str_int num_atoms # metadata_line lx ly lz cat total_energy # map atom_line atoms_data"

text \<open>
  Lines 89 to 132, the branch of a wanted frame, from the stream as it stands after the
  timestep line: \<^verbatim>\<open>frame_content\<close> and the stream after the frame.
\<close>

definition parse_frame ::
  "(string \<rightharpoonup> string) \<Rightarrow> dump_file \<Rightarrow> int \<Rightarrow> stream \<Rightarrow> (string list \<times> stream) result" where
  "parse_frame tm df timestep f =
     (case readline (skip_lines 1 f) of (l, f1) \<Rightarrow>
      case py_int (strip l) of Inl e \<Rightarrow> Inl e | Inr num_atoms \<Rightarrow>
      case readline (skip_lines 1 f1) of (bx, f2) \<Rightarrow>
      case unpack2 (split bx) of Inl e \<Rightarrow> Inl e | Inr (xlo, xhi) \<Rightarrow>
      case readline f2 of (by, f3) \<Rightarrow>
      case unpack2 (split by) of Inl e \<Rightarrow> Inl e | Inr (ylo, yhi) \<Rightarrow>
      case readline f3 of (bz, f4) \<Rightarrow>
      case unpack2 (split bz) of Inl e \<Rightarrow> Inl e | Inr (zlo, zhi) \<Rightarrow>
      let lx = float_sub xhi xlo;
          ly = float_sub yhi ylo;
          lz = float_sub zhi zlo
      in case read_atoms tm (nat num_atoms) (skip_lines 1 f4) [] float_zero of
           Inl e \<Rightarrow> Inl e
         | Inr (atoms_data, total_energy, f5) \<Rightarrow>
             Inr (frame_content num_atoms lx ly lz (category df timestep) total_energy atoms_data,
                  f5))"

subsection \<open>The loop over the stream\<close>

text \<open>No branch of the loop body gives back a longer stream than it was given.\<close>

lemma snd_readline: "snd (readline f) = tl f"
  by (simp add: readline_def split: list.splits)

lemma fst_readline: "fst (readline f) = (case f of [] \<Rightarrow> [] | l # _ \<Rightarrow> l)"
  by (simp add: readline_def split: list.splits)

lemma skip_lines_drop: "skip_lines n f = drop n f"
  by (induction n arbitrary: f) (simp_all add: snd_readline drop_Suc)

lemma readline_length: "readline f = (l, f') \<Longrightarrow> length f' \<le> length f"
  by (auto simp: readline_def split: list.splits)

lemma readline_length_less: "readline f = (l, f') \<Longrightarrow> l \<noteq> [] \<Longrightarrow> length f' < length f"
  by (auto simp: readline_def split: list.splits)

lemma skip_frame_length: "skip_frame f = Inr (Some f') \<Longrightarrow> length f' \<le> length f"
proof -
  assume a: "skip_frame f = Inr (Some f')"
  obtain line f1 where r1: "readline (drop 6 f) = (line, f1)" by (cases "readline (drop 6 f)")
  obtain l f2 where r2: "readline f1 = (l, f2)" by (cases "readline f1")
  from a r1 r2 obtain n where "f' = drop n f2"
    by (auto simp: skip_frame_def skip_lines_drop split: list.splits if_splits sum.splits)
  moreover have "length f2 \<le> length f1" using r2 by (rule readline_length)
  moreover have "length f1 \<le> length (drop 6 f)" using r1 by (rule readline_length)
  ultimately show ?thesis by simp
qed

lemma read_atoms_length:
  "read_atoms tm n f a t = Inr (a', t', f') \<Longrightarrow> length f' \<le> length f"
proof (induction n arbitrary: f a t)
  case 0
  then show ?case by simp
next
  case (Suc n)
  then show ?case
    by (fastforce simp: readline_def split: list.splits sum.splits prod.splits)
qed

lemma parse_frame_length: "parse_frame tm df t f = Inr (fc, f') \<Longrightarrow> length f' \<le> length f"
  unfolding parse_frame_def skip_lines_drop Let_def
  by (auto split: prod.splits sum.splits dest!: read_atoms_length readline_length)

text \<open>
  Lines 69 to 134, the \<^verbatim>\<open>while True\<close> loop, with the stream and \<^verbatim>\<open>results\<close> as they
  stand; \<open>dts\<close> is \<^verbatim>\<open>desired_timesteps\<close>. Each round reads at least one line, so the
  loop ends with the stream.
\<close>

function scan ::
  "int list \<Rightarrow> (string \<rightharpoonup> string) \<Rightarrow> dump_file \<Rightarrow> stream \<Rightarrow> string list \<Rightarrow> string list result" where
  "scan dts tm df f results =
     (case readline f of (line, f1) \<Rightarrow>
        if line = [] then Inr results
        else if \<not> str_in ''ITEM: TIMESTEP'' line then scan dts tm df f1 results
        else (case readline f1 of (l, f2) \<Rightarrow>
                (case py_int (strip l) of
                   Inl e \<Rightarrow> Inl e
                 | Inr timestep \<Rightarrow>
                     if timestep \<notin> set dts
                     then (case skip_frame f2 of
                             Inl e \<Rightarrow> Inl e
                           | Inr None \<Rightarrow> Inr results
                           | Inr (Some f3) \<Rightarrow> scan dts tm df f3 results)
                     else (case parse_frame tm df timestep f2 of
                             Inl e \<Rightarrow> Inl e
                           | Inr (fc, f3) \<Rightarrow> scan dts tm df f3 (results @ [join_nl fc])))))"
  by pat_completeness auto
termination
  apply (relation "measure (\<lambda>(dts, tm, df, f, results). length f)")
  apply simp
  apply (auto simp: readline_def split: list.splits dest!: skip_frame_length parse_frame_length)
  done

declare scan.simps [simp del]

text \<open>Lines 63 to 136\<close>

definition process_dump_file :: "config \<Rightarrow> dump_file \<Rightarrow> stream \<Rightarrow> string list result" where
  "process_dump_file cfg df f =
     (case desired_timesteps cfg of
        Inl e \<Rightarrow> Inl e
      | Inr dts \<Rightarrow> scan dts (ATOM_TYPE_MAP cfg) df f [])"

section \<open>Notions used in the properties\<close>

text \<open>The line that the \<open>i\<close>-th next \<^verbatim>\<open>readline\<close> returns, counting from 0.\<close>

definition line_at :: "stream \<Rightarrow> nat \<Rightarrow> string" where
  "line_at f i = fst (readline (drop i f))"


text \<open>Two lines that split into equally many fields and differ at most in the fields
  0, 5, 6 and 7.\<close>

definition agree_outside_id_velocity :: "string \<Rightarrow> string \<Rightarrow> bool" where
  "agree_outside_id_velocity l l' =
     (let ps = split l; qs = split l'
      in length ps = length qs \<and>
         list_all (\<lambda>i. ps ! i = qs ! i) (filter (\<lambda>i. i \<notin> set [0, 5, 6, 7]) [0..<length ps]))"

text \<open>Eight-decimal fixed-point notation: an optional minus sign, at least one digit, a
  point, exactly eight digits.\<close>

definition is_fixed8 :: "string \<Rightarrow> bool" where
  "is_fixed8 s =
     (let t = (case s of [] \<Rightarrow> [] | c # cs \<Rightarrow> if c = CHR ''-'' then cs else s);
          ip = takeWhile is_digit t;
          r = dropWhile is_digit t
      in ip \<noteq> [] \<and>
         (case r of [] \<Rightarrow> False
          | c # fp \<Rightarrow> c = CHR ''.'' \<and> length fp = 8 \<and> list_all is_digit fp))"

definition fixed8_or_nonfinite :: "string \<Rightarrow> bool" where
  "fixed8_or_nonfinite s = (is_fixed8 s \<or> s \<in> set [''inf'', ''-inf'', ''nan''])"

text \<open>The mantissa of a double is not negative.\<close>

definition float_ok :: "pyfloat \<Rightarrow> bool" where
  "float_ok x = (case x of Finite s m e \<Rightarrow> 0 \<le> m | _ \<Rightarrow> True)"

section \<open>Example inputs\<close>

text \<open>A sampling stride of 100 up to timestep 100, with the type map of the source.\<close>

definition example_config :: config where
  "example_config =
     \<lparr>MAX_TIMESTEP = 100, TIMESTEP_INTERVAL = 100,
      ATOM_TYPE_MAP = [''1'' \<mapsto> ''C'', ''2'' \<mapsto> ''Si'', ''3'' \<mapsto> ''O'']\<rparr>"

definition example_file :: dump_file where
  "example_file = \<lparr>base_name = ''run'', rel_path = ''.''\<rparr>"

text \<open>A frame in the dump format with box bounds \<open>(0, 10)\<close>, \<open>(0, 5)\<close>, \<open>(0, 2)\<close>:
  the lines up to the ATOMS header, for a timestep line and an atom-count line.\<close>

definition frame_head :: "string \<Rightarrow> string \<Rightarrow> stream" where
  "frame_head t n =
     [''ITEM: TIMESTEP\<newline>'', t @ ''\<newline>'', ''ITEM: NUMBER OF ATOMS\<newline>'', n @ ''\<newline>'',
      ''ITEM: BOX BOUNDS pp pp pp\<newline>'', ''0 10\<newline>'', ''0 5\<newline>'', ''0 2\<newline>'',
      ''ITEM: ATOMS id type x y z vx vy vz fx fy fz atom_energy\<newline>'']"

text \<open>Three atoms of types 1, 2, 1 with the energies 1.0, 2.5 and -0.5.\<close>

definition atom1 :: string where
  "atom1 = ''1 1 0.0 0.0 0.0 0.1 0.2 0.3 0.5 -0.5 0.25 1.0\<newline>''"

definition atom2 :: string where
  "atom2 = ''2 2 1.0 1.5 0.5 0.1 0.2 0.3 0.0 0.0 0.0 2.5\<newline>''"

definition atom3 :: string where
  "atom3 = ''3 1 2.0 2.5 1.0 0.1 0.2 0.3 1.0 2.0 3.0 -0.5\<newline>''"

text \<open>The block of the three-atom frame at timestep 0 of the file \<^verbatim>\<open>run.dump\<close> in the
  input directory.\<close>

definition example_metadata :: string where
  "example_metadata =
     ''Lattice='' @ [dquote] @ ''10.0 0.0 0.0 0.0 5.0 0.0 0.0 0.0 2.0'' @ [dquote] @
     '' Properties=species:S:1:pos:R:3:forces:R:3 name=Amorphous_Bulk category=run-0'' @
     '' energy=3.0 pbc='' @ [dquote] @ ''T T T'' @ [dquote]"

definition example_block :: string where
  "example_block =
     join_nl
       [''3'',
        example_metadata,
        ''C 0.00000000 0.00000000 0.00000000 0.50000000 -0.50000000 0.25000000'',
        ''Si 1.00000000 1.50000000 0.50000000 0.00000000 0.00000000 0.00000000'',
        ''C 2.00000000 2.50000000 1.00000000 1.00000000 2.00000000 3.00000000'']"

text \<open>The first example atom with another id and other velocities.\<close>

definition atom1_other :: string where
  "atom1_other = ''9 1 0.0 0.0 0.0 7.5 8.5 9.5 0.5 -0.5 0.25 1.0\<newline>''"

section \<open>Frame selection\<close>

lemma set_range_up:
  "0 < s \<Longrightarrow> set (range_up a b s) = {x. a \<le> x \<and> x < b \<and> (x - a) mod s = 0}"
proof (induction a b s rule: range_up.induct)
  case (1 i stop step)
  show ?case
  proof (cases "i < stop")
    case False
    then show ?thesis by (subst range_up.simps) auto
  next
    case True
    have step: "range_up i stop step = i # range_up (i + step) stop step"
      using True "1.prems" by (subst range_up.simps) simp
    have ih: "set (range_up (i + step) stop step) =
        {x. i + step \<le> x \<and> x < stop \<and> (x - (i + step)) mod step = 0}"
      using "1.IH" True "1.prems" by simp
    have "\<And>x. (i + step \<le> x \<and> (x - (i + step)) mod step = 0) \<longleftrightarrow>
        (i \<le> x \<and> x \<noteq> i \<and> (x - i) mod step = 0)"
    proof -
      fix x :: int
      have m: "(x - (i + step)) mod step = (x - i) mod step"
        by (metis diff_diff_eq mod_diff_right_eq mod_self diff_zero)
      show "(i + step \<le> x \<and> (x - (i + step)) mod step = 0) \<longleftrightarrow>
        (i \<le> x \<and> x \<noteq> i \<and> (x - i) mod step = 0)"
      proof
        assume a: "i + step \<le> x \<and> (x - (i + step)) mod step = 0"
        then show "i \<le> x \<and> x \<noteq> i \<and> (x - i) mod step = 0"
          using "1.prems" m by auto
      next
        assume a: "i \<le> x \<and> x \<noteq> i \<and> (x - i) mod step = 0"
        then have "step dvd (x - i)" by auto
        moreover have "0 < x - i" using a by simp
        ultimately have "step \<le> x - i" using zdvd_imp_le by blast
        then show "i + step \<le> x \<and> (x - (i + step)) mod step = 0"
          using a m by auto
      qed
    qed
    then have k: "\<And>x. (i + step \<le> x \<and> (x - (i + step)) mod step = 0) \<longleftrightarrow>
        (i \<le> x \<and> x \<noteq> i \<and> (x - i) mod step = 0)" .
    show ?thesis
    proof (rule set_eqI)
      fix x
      show "x \<in> set (range_up i stop step) \<longleftrightarrow>
          x \<in> {x. i \<le> x \<and> x < stop \<and> (x - i) mod step = 0}"
      proof (cases "x = i")
        case True
        then show ?thesis using \<open>i < stop\<close> step by simp
      next
        case False
        have "x \<in> set (range_up i stop step) \<longleftrightarrow>
            (i + step \<le> x \<and> x < stop \<and> (x - (i + step)) mod step = 0)"
          unfolding step using False by (simp add: ih)
        also have "\<dots> \<longleftrightarrow> (i \<le> x \<and> x \<noteq> i \<and> (x - i) mod step = 0) \<and> x < stop"
          using k [of x] by (cases "x < stop") simp_all
        finally show ?thesis using False by (simp add: conj_ac)
      qed
    qed
  qed
qed

lemma desired_timesteps_mem:
  assumes "0 < TIMESTEP_INTERVAL cfg"
  shows "\<exists>dts. desired_timesteps cfg = Inr dts \<and>
    (\<forall>t. t \<in> set dts \<longleftrightarrow> 0 \<le> t \<and> t \<le> MAX_TIMESTEP cfg \<and> t mod TIMESTEP_INTERVAL cfg = 0)"
  using assms by (auto simp: desired_timesteps_def py_range_def set_range_up)

lemma scan_marker:
  assumes "str_in ''ITEM: TIMESTEP'' line" and "py_int (strip l) = Inr t"
  shows "scan dts tm df (line # l # f) results =
    (if t \<in> set dts
     then (case parse_frame tm df t f of
             Inl e \<Rightarrow> Inl e
           | Inr (fc, f') \<Rightarrow> scan dts tm df f' (results @ [join_nl fc]))
     else (case skip_frame f of
             Inl e \<Rightarrow> Inl e
           | Inr None \<Rightarrow> Inr results
           | Inr (Some f') \<Rightarrow> scan dts tm df f' results))"
proof -
  have "line \<noteq> []" using assms(1) by auto
  then show ?thesis
    using assms by (subst scan.simps) (simp add: readline_def)
qed

text \<open>
  C2. For a positive stride \<^verbatim>\<open>TIMESTEP_INTERVAL\<close> and any bound \<^verbatim>\<open>MAX_TIMESTEP\<close>,
  \<^verbatim>\<open>desired_timesteps\<close> is built without error, and a frame whose timestep line reads
  \<open>t\<close> takes the full-parse branch of the loop if and only if
  \<open>0 \<le> t \<le> MAX_TIMESTEP\<close> and \<open>t mod TIMESTEP_INTERVAL = 0\<close>; otherwise it takes the
  skip branch.
\<close>

theorem frame_selected_iff:
  assumes "0 < TIMESTEP_INTERVAL cfg"
    and "str_in ''ITEM: TIMESTEP'' line"
    and "py_int (strip l) = Inr t"
  shows "\<exists>dts. desired_timesteps cfg = Inr dts \<and>
    (t \<in> set dts \<longleftrightarrow> 0 \<le> t \<and> t \<le> MAX_TIMESTEP cfg \<and> t mod TIMESTEP_INTERVAL cfg = 0) \<and>
    scan dts tm df (line # l # f) results =
      (if 0 \<le> t \<and> t \<le> MAX_TIMESTEP cfg \<and> t mod TIMESTEP_INTERVAL cfg = 0
       then (case parse_frame tm df t f of
               Inl e \<Rightarrow> Inl e
             | Inr (fc, f') \<Rightarrow> scan dts tm df f' (results @ [join_nl fc]))
       else (case skip_frame f of
               Inl e \<Rightarrow> Inl e
             | Inr None \<Rightarrow> Inr results
             | Inr (Some f') \<Rightarrow> scan dts tm df f' results))"
proof -
  from desired_timesteps_mem [OF assms(1)] obtain dts where
    d: "desired_timesteps cfg = Inr dts" and
    m: "\<And>t. t \<in> set dts \<longleftrightarrow> 0 \<le> t \<and> t \<le> MAX_TIMESTEP cfg \<and> t mod TIMESTEP_INTERVAL cfg = 0"
    by blast
  show ?thesis
    using d m [of t] scan_marker [OF assms(2,3), of dts tm df f results]
    by (intro exI [of _ dts]) simp
qed

theorem frame_selected_iff_witness:
  "\<exists>dts. desired_timesteps example_config = Inr dts \<and> 50 \<notin> set dts \<and>
     scan dts Map.empty example_file [''ITEM: TIMESTEP\<newline>'', ''50\<newline>''] [] = Inr []"
proof -
  have s: "0 < TIMESTEP_INTERVAL example_config" by (simp add: example_config_def)
  have m: "str_in ''ITEM: TIMESTEP'' ''ITEM: TIMESTEP\<newline>''" by code_simp
  have p: "py_int (strip ''50\<newline>'') = Inr 50" by code_simp
  have k: "skip_frame [] = Inr None" by (simp add: skip_frame_def skip_lines_drop readline_def)
  show ?thesis
    using frame_selected_iff [OF s m p, of Map.empty example_file "[]" "[]"] k
    by (simp add: example_config_def)
qed

section \<open>The type map\<close>



section \<open>One frame\<close>

lemma readline_drop: "readline (drop k f) = (line_at f k, drop (k + 1) f)"
proof (cases "drop k f")
  case Nil
  then show ?thesis by (simp add: line_at_def readline_def)
next
  case (Cons l ls)
  then have "drop (Suc k) f = ls" by (metis drop_Suc list.sel(3) tl_drop)
  with Cons show ?thesis by (simp add: line_at_def readline_def)
qed

lemma parse_frame_eq:
  "parse_frame tm df timestep f =
     (case py_int (strip (line_at f 1)) of Inl e \<Rightarrow> Inl e | Inr num_atoms \<Rightarrow>
      case unpack2 (split (line_at f 3)) of Inl e \<Rightarrow> Inl e | Inr (xlo, xhi) \<Rightarrow>
      case unpack2 (split (line_at f 4)) of Inl e \<Rightarrow> Inl e | Inr (ylo, yhi) \<Rightarrow>
      case unpack2 (split (line_at f 5)) of Inl e \<Rightarrow> Inl e | Inr (zlo, zhi) \<Rightarrow>
      case read_atoms tm (nat num_atoms) (drop 7 f) [] float_zero of
        Inl e \<Rightarrow> Inl e
      | Inr (atoms_data, total_energy, f5) \<Rightarrow>
          Inr (frame_content num_atoms (float_sub xhi xlo) (float_sub yhi ylo)
                 (float_sub zhi zlo) (category df timestep) total_energy atoms_data, f5))"
proof -
  have a: "(1::nat) + 1 = 2" "(1::nat) + 2 = 3" "(1::nat) + 3 = 4" "(1::nat) + 4 = 5" "(1::nat) + 5 = 6" "(1::nat) + 6 = 7" "(2::nat) + 1 = 3" "(2::nat) + 2 = 4" "(2::nat) + 3 = 5" "(2::nat) + 4 = 6" "(2::nat) + 5 = 7" "(3::nat) + 1 = 4" "(3::nat) + 2 = 5" "(3::nat) + 3 = 6" "(3::nat) + 4 = 7" "(4::nat) + 1 = 5" "(4::nat) + 2 = 6" "(4::nat) + 3 = 7" "(5::nat) + 1 = 6" "(5::nat) + 2 = 7" "(6::nat) + 1 = 7"
    by simp_all
  have l: "\<And>a b. line_at (drop a f) b = line_at f (b + a)"
    by (simp add: line_at_def)
  show ?thesis
    unfolding parse_frame_def Let_def skip_lines_drop drop_drop readline_drop prod.case l a
    by (rule refl)
qed

lemma parse_atom_line_Nil: "parse_atom_line tm [] = Inl IndexError"
  by (simp add: parse_atom_line_def split_def)

lemma read_atoms_Inr:
  "read_atoms tm n f ad tot = Inr (atoms, te, rest) \<Longrightarrow>
     n \<le> length f \<and> rest = drop n f \<and>
     (\<exists>ps. map (parse_atom_line tm) (take n f) = map Inr ps \<and>
           atoms = ad @ map fst ps \<and> te = foldl float_add tot (map snd ps))"
proof (induction n arbitrary: f ad tot)
  case 0
  then show ?case by simp
next
  case (Suc n)
  show ?case
  proof (cases f)
    case Nil
    with Suc.prems show ?thesis
      by (simp add: readline_def parse_atom_line_Nil)
  next
    case (Cons l f')
    from Suc.prems Cons obtain a en where
      p: "parse_atom_line tm l = Inr (a, en)" and
      r: "read_atoms tm n f' (ad @ [a]) (float_add tot en) = Inr (atoms, te, rest)"
      by (auto simp: readline_def split: sum.splits)
    from Suc.IH [OF r] obtain ps where
      len: "n \<le> length f'" and rest: "rest = drop n f'" and
      ps: "map (parse_atom_line tm) (take n f') = map Inr ps" and
      at: "atoms = (ad @ [a]) @ map fst ps" and
      tot: "te = foldl float_add (float_add tot en) (map snd ps)"
      by blast
    have "map (parse_atom_line tm) (take (Suc n) f) = map Inr ((a, en) # ps)"
      using Cons p ps by simp
    moreover have "atoms = ad @ map fst ((a, en) # ps)" using at by simp
    moreover have "te = foldl float_add tot (map snd ((a, en) # ps))" using tot by simp
    ultimately show ?thesis using len rest Cons
      by (intro conjI exI [of _ "(a, en) # ps"]) simp_all
  qed
qed

lemma parse_frame_Inr:
  assumes "parse_frame tm df t f = Inr (fc, rest)"
  shows "\<exists>n xlo xhi ylo yhi zlo zhi ps.
    py_int (strip (line_at f 1)) = Inr n \<and>
    unpack2 (split (line_at f 3)) = Inr (xlo, xhi) \<and>
    unpack2 (split (line_at f 4)) = Inr (ylo, yhi) \<and>
    unpack2 (split (line_at f 5)) = Inr (zlo, zhi) \<and>
    nat n \<le> length (drop 7 f) \<and>
    map (parse_atom_line tm) (take (nat n) (drop 7 f)) = map Inr ps \<and>
    fc = frame_content n (float_sub xhi xlo) (float_sub yhi ylo) (float_sub zhi zlo)
           (category df t) (foldl float_add float_zero (map snd ps)) (map fst ps) \<and>
    rest = drop (nat n) (drop 7 f)"
proof -
  from assms obtain n xlo xhi ylo yhi zlo zhi atoms te where
    n: "py_int (strip (line_at f 1)) = Inr n" and
    x: "unpack2 (split (line_at f 3)) = Inr (xlo, xhi)" and
    y: "unpack2 (split (line_at f 4)) = Inr (ylo, yhi)" and
    z: "unpack2 (split (line_at f 5)) = Inr (zlo, zhi)" and
    r: "read_atoms tm (nat n) (drop 7 f) [] float_zero = Inr (atoms, te, rest)" and
    fc: "fc = frame_content n (float_sub xhi xlo) (float_sub yhi ylo) (float_sub zhi zlo)
           (category df t) te atoms"
    unfolding parse_frame_eq by (auto split: sum.splits prod.splits)
  from read_atoms_Inr [OF r] obtain ps where
    "nat n \<le> length (drop 7 f)" "rest = drop (nat n) (drop 7 f)"
    "map (parse_atom_line tm) (take (nat n) (drop 7 f)) = map Inr ps"
    "atoms = map fst ps" "te = foldl float_add float_zero (map snd ps)"
    by auto
  with n x y z fc show ?thesis by blast
qed

section \<open>The blocks of a run\<close>

lemma scan_Nil: "scan dts tm df [] results = Inr results"
  by (subst scan.simps) (simp add: readline_def)

lemma scan_empty_line: "scan dts tm df ([] # f) results = Inr results"
  by (subst scan.simps) (simp add: readline_def)

lemma scan_other:
  "line \<noteq> [] \<Longrightarrow> \<not> str_in ''ITEM: TIMESTEP'' line \<Longrightarrow>
     scan dts tm df (line # f) results = scan dts tm df f results"
  by (subst scan.simps) (simp add: readline_def)

lemma py_int_Nil: "py_int (strip []) = Inl ValueError"
  by (simp add: py_int_def strip_def drop_underscores_def take_sign_def)

lemma scan_marker_last:
  "str_in ''ITEM: TIMESTEP'' line \<Longrightarrow> scan dts tm df [line] results = Inl ValueError"
  by (subst scan.simps) (auto simp: readline_def py_int_Nil)

lemma skip_frame_suffix: "skip_frame f = Inr (Some f') \<Longrightarrow> suffix f' f"
proof -
  assume a: "skip_frame f = Inr (Some f')"
  obtain line f1 where r1: "readline (drop 6 f) = (line, f1)" by (cases "readline (drop 6 f)")
  obtain l f2 where r2: "readline f1 = (l, f2)" by (cases "readline f1")
  from a r1 r2 obtain n where "f' = drop n f2"
    by (auto simp: skip_frame_def skip_lines_drop split: list.splits if_splits sum.splits)
  moreover have "f2 = drop 1 f1" using r2 readline_drop [of 0 f1] by simp
  moreover have "f1 = drop 7 f" using r1 readline_drop [of 6 f] by simp
  ultimately have "f' = drop (n + 1 + 7) f" by (simp add: add.commute add.left_commute)
  then show ?thesis by (simp add: suffix_drop)
qed

lemma parse_frame_suffix: "parse_frame tm df t f = Inr (fc, f') \<Longrightarrow> suffix f' f"
  using parse_frame_Inr [of tm df t f fc f'] by (auto simp: suffix_drop)

text \<open>
  Every block that the loop adds to \<^verbatim>\<open>results\<close> is the joined \<^verbatim>\<open>frame_content\<close> of a
  frame of the stream: a marker line, a timestep line that reads a wanted timestep, and
  a frame body that \<open>parse_frame\<close> accepts.
\<close>

lemma scan_blocks:
  "scan dts tm df f results = Inr out \<Longrightarrow>
     \<exists>new. out = results @ new \<and>
       (\<forall>blk \<in> set new. \<exists>line l f' t fc rest.
          suffix (line # l # f') f \<and> str_in ''ITEM: TIMESTEP'' line \<and>
          py_int (strip l) = Inr t \<and> t \<in> set dts \<and>
          parse_frame tm df t f' = Inr (fc, rest) \<and> blk = join_nl fc)"
proof (induction dts tm df f results arbitrary: out rule: scan.induct)
  case (1 dts tm df f results)
  let ?Q = "\<lambda>g blk. \<exists>line l f' t fc rest.
          suffix (line # l # f') g \<and> str_in ''ITEM: TIMESTEP'' line \<and>
          py_int (strip l) = Inr t \<and> t \<in> set dts \<and>
          parse_frame tm df t f' = Inr (fc, rest) \<and> blk = join_nl fc"
  have mono: "?Q h blk" if q: "?Q g blk" and s: "suffix g h" for g h blk
  proof -
    from q obtain line l f' t fc rest where
      a: "suffix (line # l # f') g" and
      b: "str_in ''ITEM: TIMESTEP'' line \<and> py_int (strip l) = Inr t \<and> t \<in> set dts \<and>
          parse_frame tm df t f' = Inr (fc, rest) \<and> blk = join_nl fc"
      by blast
    from a s have "suffix (line # l # f') h" by (rule suffix_order.trans)
    with b show ?thesis by blast
  qed
  show ?case
  proof (cases f)
    case Nil
    with "1.prems" show ?thesis by (simp add: scan_Nil)
  next
    case (Cons line f1)
    then have rl: "(line, f1) = readline f" by (simp add: readline_def)
    consider (empty) "line = []"
      | (other) "line \<noteq> []" "\<not> str_in ''ITEM: TIMESTEP'' line"
      | (marker) "line \<noteq> []" "str_in ''ITEM: TIMESTEP'' line"
      by blast
    then show ?thesis
    proof cases
      case empty
      with "1.prems" Cons show ?thesis by (simp add: scan_empty_line)
    next
      case other
      with "1.prems" Cons have "scan dts tm df f1 results = Inr out"
        by (simp add: scan_other)
      from "1.IH"(1) [OF rl other this] obtain new where
        n: "out = results @ new" "\<forall>blk \<in> set new. ?Q f1 blk" by blast
      have "suffix f1 f" using Cons by (simp add: suffix_ConsI)
      with n mono have "\<forall>blk \<in> set new. ?Q f blk" by blast
      with n(1) show ?thesis by blast
    next
      case marker
      show ?thesis
      proof (cases f1)
        case Nil
        with "1.prems" Cons marker show ?thesis by (simp add: scan_marker_last)
      next
        case c2: (Cons l f2)
        then have rl2: "(l, f2) = readline f1" by (simp add: readline_def)
        show ?thesis
        proof (cases "py_int (strip l)")
          case (Inl e)
          with "1.prems" Cons c2 marker show ?thesis
            by (subst (asm) scan.simps) (simp add: readline_def)
        next
          case (Inr t)
          note sm = scan_marker [OF marker(2) Inr, of dts tm df f2 results]
          show ?thesis
          proof (cases "t \<in> set dts")
            case False
            show ?thesis
            proof (cases "skip_frame f2")
              case (Inl e)
              with "1.prems" Cons c2 sm False show ?thesis by simp
            next
              case sk: (Inr r)
              show ?thesis
              proof (cases r)
                case None
                with "1.prems" Cons c2 sm False sk show ?thesis by simp
              next
                case (Some f3)
                with "1.prems" Cons c2 sm False sk
                have "scan dts tm df f3 results = Inr out" by simp
                from "1.IH"(2) [OF rl marker(1) _ rl2 Inr False sk Some this] marker(2)
                obtain new where
                  n: "out = results @ new" "\<forall>blk \<in> set new. ?Q f3 blk" by blast
                have "suffix f3 f2" using sk Some skip_frame_suffix by blast
                then have "suffix f3 f" using Cons c2 by (simp add: suffix_ConsI)
                with n mono have "\<forall>blk \<in> set new. ?Q f blk" by blast
                with n(1) show ?thesis by blast
              qed
            qed
          next
            case True
            show ?thesis
            proof (cases "parse_frame tm df t f2")
              case (Inl e)
              with "1.prems" Cons c2 sm True show ?thesis by simp
            next
              case pf: (Inr r)
              obtain fc f3 where r: "r = (fc, f3)" by (cases r)
              with "1.prems" Cons c2 sm True pf
              have "scan dts tm df f3 (results @ [join_nl fc]) = Inr out" by simp
              from "1.IH"(3) [OF rl marker(1) _ rl2 Inr _ pf r [symmetric] this] marker(2) True
              obtain new where
                n: "out = (results @ [join_nl fc]) @ new" "\<forall>blk \<in> set new. ?Q f3 blk"
                by blast
              have "suffix f3 f2" using pf r parse_frame_suffix by blast
              then have "suffix f3 f" using Cons c2 by (simp add: suffix_ConsI)
              with n mono have rest: "\<forall>blk \<in> set new. ?Q f blk" by blast
              have first: "?Q f (join_nl fc)"
                using Cons c2 marker(2) Inr True pf r by blast
              have "out = results @ (join_nl fc # new)" using n(1) by simp
              moreover have "\<forall>blk \<in> set (join_nl fc # new). ?Q f blk"
                using first rest by simp
              ultimately show ?thesis by blast
            qed
          qed
        qed
      qed
    qed
  qed
qed

lemma example_run:
  "process_dump_file example_config example_file
     (frame_head ''0'' ''3'' @ [atom1, atom2, atom3] @ frame_head ''50'' ''3'' @ [atom1, atom2, atom3]) =
   Inr [example_block]"
  by code_simp

section \<open>Truncated frames\<close>




section \<open>The blocks and their frames\<close>

lemma parse_atom_line_energy:
  "parse_atom_line tm l = Inr (a, en) \<Longrightarrow> py_float (split l ! 11) = Inr en"
  by (auto simp: parse_atom_line_def Let_def split: sum.splits prod.splits if_splits)

lemma map_Inr_nth:
  assumes "map g xs = map Inr ps" and "i < length ps"
  shows "g (xs ! i) = Inr (ps ! i)"
proof -
  have "length xs = length ps" using assms(1) by (metis length_map)
  then have "g (xs ! i) = map g xs ! i" using assms(2) by simp
  also have "\<dots> = map Inr ps ! i" by (simp only: assms(1))
  also have "\<dots> = Inr (ps ! i)" using assms(2) by simp
  finally show ?thesis .
qed

lemma process_blocks:
  assumes "process_dump_file cfg df f = Inr out" and "blk \<in> set out"
  shows "\<exists>line l f' t n xlo xhi ylo yhi zlo zhi ps.
    suffix (line # l # f') f \<and> str_in ''ITEM: TIMESTEP'' line \<and>
    py_int (strip l) = Inr t \<and>
    py_int (strip (line_at f' 1)) = Inr n \<and>
    unpack2 (split (line_at f' 3)) = Inr (xlo, xhi) \<and>
    unpack2 (split (line_at f' 4)) = Inr (ylo, yhi) \<and>
    unpack2 (split (line_at f' 5)) = Inr (zlo, zhi) \<and>
    nat n \<le> length (drop 7 f') \<and>
    map (parse_atom_line (ATOM_TYPE_MAP cfg)) (take (nat n) (drop 7 f')) = map Inr ps \<and>
    blk = join_nl (frame_content n (float_sub xhi xlo) (float_sub yhi ylo) (float_sub zhi zlo)
           (category df t) (foldl float_add float_zero (map snd ps)) (map fst ps))"
proof -
  from assms(1) obtain dts where
    s: "scan dts (ATOM_TYPE_MAP cfg) df f [] = Inr out"
    by (auto simp: process_dump_file_def split: sum.splits)
  from scan_blocks [OF s] assms(2) obtain line l f' t fc rest where
    a: "suffix (line # l # f') f" "str_in ''ITEM: TIMESTEP'' line" "py_int (strip l) = Inr t" and
    p: "parse_frame (ATOM_TYPE_MAP cfg) df t f' = Inr (fc, rest)" and
    b: "blk = join_nl fc"
    by auto
  from parse_frame_Inr [OF p] a b show ?thesis by blast
qed

text \<open>
  C8. Every block of a run belongs to a wanted frame of the stream, and the energy on
  its metadata line is \<open>foldl float_add 0.0 es\<close>, the sum accumulated from left to right
  and starting from \<^verbatim>\<open>0.0\<close>, where \<open>es\<close> are the floats of field 11 of the frame's atom
  lines in the order of the stream.
\<close>

theorem total_energy_in_atom_order:
  assumes "process_dump_file cfg df f = Inr out" and "blk \<in> set out"
  shows "\<exists>line l f' t n es lx ly lz atom_lines.
    suffix (line # l # f') f \<and> str_in ''ITEM: TIMESTEP'' line \<and>
    py_int (strip l) = Inr t \<and>
    py_int (strip (line_at f' 1)) = Inr n \<and>
    length es = nat n \<and> nat n \<le> length (drop 7 f') \<and>
    (\<forall>i < nat n. py_float (split (drop 7 f' ! i) ! 11) = Inr (es ! i)) \<and>
    blk = join_nl (str_int n #
            metadata_line lx ly lz (category df t) (foldl float_add float_zero es) #
            atom_lines)"
proof -
  from process_blocks [OF assms] obtain line l f' t n xlo xhi ylo yhi zlo zhi ps where
    a: "suffix (line # l # f') f" "str_in ''ITEM: TIMESTEP'' line" "py_int (strip l) = Inr t"
      "py_int (strip (line_at f' 1)) = Inr n" and
    len: "nat n \<le> length (drop 7 f')" and
    ps: "map (parse_atom_line (ATOM_TYPE_MAP cfg)) (take (nat n) (drop 7 f')) = map Inr ps" and
    blk: "blk = join_nl (frame_content n (float_sub xhi xlo) (float_sub yhi ylo)
           (float_sub zhi zlo) (category df t) (foldl float_add float_zero (map snd ps))
           (map fst ps))"
    by blast
  have lps: "length ps = nat n"
    using ps len by (metis length_map length_take min.absorb2)
  have en: "py_float (split (drop 7 f' ! i) ! 11) = Inr (map snd ps ! i)" if "i < nat n" for i
  proof -
    have "parse_atom_line (ATOM_TYPE_MAP cfg) (take (nat n) (drop 7 f') ! i) = Inr (ps ! i)"
      using map_Inr_nth [OF ps] that lps by simp
    then have "parse_atom_line (ATOM_TYPE_MAP cfg) (drop 7 f' ! i) = Inr (fst (ps ! i), snd (ps ! i))"
      using that by simp
    from parse_atom_line_energy [OF this] show ?thesis using that lps by simp
  qed
  have "blk = join_nl (str_int n #
      metadata_line (float_sub xhi xlo) (float_sub yhi ylo) (float_sub zhi zlo) (category df t)
        (foldl float_add float_zero (map snd ps)) # map atom_line (map fst ps))"
    using blk by (simp add: frame_content_def)
  moreover have "length (map snd ps) = nat n" using lps by simp
  ultimately show ?thesis using a len en by blast
qed

theorem total_energy_in_atom_order_witness:
  "\<exists>t n es lx ly lz atom_lines.
     length es = nat n \<and>
     example_block =
       join_nl (str_int n #
         metadata_line lx ly lz (category example_file t) (foldl float_add float_zero es) #
         atom_lines)"
proof -
  have m: "example_block \<in> set [example_block]" by simp
  from total_energy_in_atom_order [OF example_run m] show ?thesis by blast
qed

text \<open>
  C9, amended. Every block of a run belongs to a wanted frame of the stream with a
  declared atom count \<open>n\<close>: its first line is \<open>n\<close>, and after the metadata line it has
  \<open>nat n\<close> atom lines (\<open>n\<close> of them when \<open>0 \<le> n\<close>, none when \<open>n\<close> is negative), the
  \<open>i\<close>-th of which renders the \<open>i\<close>-th atom line of the frame.
\<close>

theorem block_atom_lines:
  assumes "process_dump_file cfg df f = Inr out" and "blk \<in> set out"
  shows "\<exists>line l f' t n atoms_data meta.
    suffix (line # l # f') f \<and> str_in ''ITEM: TIMESTEP'' line \<and>
    py_int (strip l) = Inr t \<and>
    py_int (strip (line_at f' 1)) = Inr n \<and>
    length atoms_data = nat n \<and> nat n \<le> length (drop 7 f') \<and>
    (\<forall>i < nat n. \<exists>en.
       parse_atom_line (ATOM_TYPE_MAP cfg) (drop 7 f' ! i) = Inr (atoms_data ! i, en)) \<and>
    blk = join_nl (str_int n # meta # map atom_line atoms_data)"
proof -
  from process_blocks [OF assms] obtain line l f' t n xlo xhi ylo yhi zlo zhi ps where
    a: "suffix (line # l # f') f" "str_in ''ITEM: TIMESTEP'' line" "py_int (strip l) = Inr t"
      "py_int (strip (line_at f' 1)) = Inr n" and
    len: "nat n \<le> length (drop 7 f')" and
    ps: "map (parse_atom_line (ATOM_TYPE_MAP cfg)) (take (nat n) (drop 7 f')) = map Inr ps" and
    blk: "blk = join_nl (frame_content n (float_sub xhi xlo) (float_sub yhi ylo)
           (float_sub zhi zlo) (category df t) (foldl float_add float_zero (map snd ps))
           (map fst ps))"
    by blast
  have lps: "length ps = nat n"
    using ps len by (metis length_map length_take min.absorb2)
  have at: "\<exists>en. parse_atom_line (ATOM_TYPE_MAP cfg) (drop 7 f' ! i) = Inr (map fst ps ! i, en)"
    if "i < nat n" for i
  proof -
    have "parse_atom_line (ATOM_TYPE_MAP cfg) (take (nat n) (drop 7 f') ! i) = Inr (ps ! i)"
      using map_Inr_nth [OF ps] that lps by simp
    then have "parse_atom_line (ATOM_TYPE_MAP cfg) (drop 7 f' ! i) = Inr (fst (ps ! i), snd (ps ! i))"
      using that by simp
    then show ?thesis using that lps by (intro exI [of _ "snd (ps ! i)"]) simp
  qed
  have "blk = join_nl (str_int n #
      metadata_line (float_sub xhi xlo) (float_sub yhi ylo) (float_sub zhi zlo) (category df t)
        (foldl float_add float_zero (map snd ps)) # map atom_line (map fst ps))"
    using blk by (simp add: frame_content_def)
  moreover have "length (map fst ps) = nat n" using lps by simp
  ultimately show ?thesis using a len at by blast
qed

theorem block_atom_lines_witness:
  "\<exists>n atoms_data meta.
     length atoms_data = nat n \<and>
     example_block = join_nl (str_int n # meta # map atom_line atoms_data)"
proof -
  have m: "example_block \<in> set [example_block]" by simp
  from block_atom_lines [OF example_run m] show ?thesis by blast
qed

text \<open>
  C9 as stated fails for a frame that declares a negative atom count: the block shows
  the count \<open>-1\<close> and has no atom line.
\<close>

theorem block_atom_lines_counterexample:
  "process_dump_file example_config example_file (frame_head ''0'' ''-1'') =
     Inr [join_nl
       [''-1'',
        ''Lattice='' @ [dquote] @ ''10.0 0.0 0.0 0.0 5.0 0.0 0.0 0.0 2.0'' @ [dquote] @
        '' Properties=species:S:1:pos:R:3:forces:R:3 name=Amorphous_Bulk category=run-0'' @
        '' energy=0.0 pbc='' @ [dquote] @ ''T T T'' @ [dquote]]]"
  by code_simp

section \<open>Atom ids and velocities\<close>

lemma agree_nth:
  assumes "agree_outside_id_velocity l l'" and "i < length (split l)" and "i \<notin> {0, 5, 6, 7}"
  shows "split l ! i = split l' ! i"
  using assms by (auto simp: agree_outside_id_velocity_def Let_def list_all_iff)

lemma agree_length: "agree_outside_id_velocity l l' \<Longrightarrow> length (split l) = length (split l')"
  by (simp add: agree_outside_id_velocity_def Let_def)

lemma agree_slice:
  assumes "agree_outside_id_velocity l l'" and "a + k \<le> 5 \<and> 1 \<le> a \<or> 8 \<le> a"
  shows "slice a (a + k) (split l) = slice a (a + k) (split l')"
proof (rule nth_equalityI)
  show "length (slice a (a + k) (split l)) = length (slice a (a + k) (split l'))"
    using agree_length [OF assms(1)] by (simp add: slice_def)
next
  fix i assume "i < length (slice a (a + k) (split l))"
  then have i: "i < k" "a + i < length (split l)" by (auto simp: slice_def)
  have "a + i \<notin> {0, 5, 6, 7}" using assms(2) i(1) by auto
  from agree_nth [OF assms(1) i(2) this] i agree_length [OF assms(1)]
  show "slice a (a + k) (split l) ! i = slice a (a + k) (split l') ! i"
    by (simp add: slice_def)
qed

lemma agree_parse_atom_line:
  assumes "agree_outside_id_velocity l l'"
  shows "parse_atom_line tm l = parse_atom_line tm l'"
proof -
  note len = agree_length [OF assms]
  have s1: "slice 2 5 (split l) = slice 2 5 (split l')"
    using agree_slice [OF assms, of 2 3] by simp
  have s2: "slice 8 11 (split l) = slice 8 11 (split l')"
    using agree_slice [OF assms, of 8 3] by simp
  have n1: "1 < length (split l) \<Longrightarrow> split l ! 1 = split l' ! 1"
    using agree_nth [OF assms, of 1] by simp
  have n11: "11 < length (split l) \<Longrightarrow> split l ! 11 = split l' ! 11"
    using agree_nth [OF assms, of 11] by simp
  show ?thesis
    unfolding parse_atom_line_def Let_def s1 s2 len [symmetric]
    using n1 n11 len by (auto split: sum.splits prod.splits)
qed

lemma agree_read_atoms:
  assumes "list_all2 agree_outside_id_velocity f g"
  shows "map_sum id (\<lambda>(a, e, r). (a, e)) (read_atoms tm n f ad tot) =
         map_sum id (\<lambda>(a, e, r). (a, e)) (read_atoms tm n g ad tot)"
  using assms
proof (induction n arbitrary: f g ad tot)
  case 0
  then show ?case by simp
next
  case (Suc n)
  show ?case
  proof (cases f)
    case Nil
    with Suc.prems have "g = []" by simp
    with Nil show ?thesis by simp
  next
    case (Cons l f')
    with Suc.prems obtain l' g' where
      g: "g = l' # g'" and a: "agree_outside_id_velocity l l'" and
      r: "list_all2 agree_outside_id_velocity f' g'"
      by (auto simp: list_all2_Cons1)
    show ?thesis
    proof (cases "parse_atom_line tm l")
      case (Inl e)
      then have "parse_atom_line tm l' = Inl e"
        using agree_parse_atom_line [OF a, of tm] by simp
      with Inl Cons g show ?thesis
        by (simp add: readline_def)
    next
      case (Inr p)
      obtain at en where p: "p = (at, en)" by (cases p)
      have "parse_atom_line tm l' = Inr (at, en)"
        using Inr p agree_parse_atom_line [OF a, of tm] by simp
      with Suc.IH [OF r, of "ad @ [at]" "float_add tot en"] Inr p Cons g
      show ?thesis by (simp add: readline_def)
    qed
  qed
qed

lemma line_at_nth: "line_at f k = (if k < length f then f ! k else [])"
  by (simp add: line_at_def readline_def hd_drop_conv_nth split: list.splits)
     (metis Cons_nth_drop_Suc list.inject)

lemma line_at_take:
  assumes "take m f = take m g" and "k < m"
  shows "line_at f k = line_at g k"
proof -
  have l: "min m (length f) = min m (length g)"
    using assms(1) by (metis length_take min.commute)
  show ?thesis
  proof (cases "k < length f")
    case True
    then have kg: "k < length g" using l assms(2) by linarith
    have "f ! k = take m f ! k" using assms(2) by simp
    also have "\<dots> = take m g ! k" by (simp only: assms(1))
    also have "\<dots> = g ! k" using assms(2) by simp
    finally show ?thesis using True kg by (simp add: line_at_nth)
  next
    case False
    then have "\<not> k < length g" using l assms(2) by linarith
    with False show ?thesis by (simp add: line_at_nth)
  qed
qed

lemma agree_tail:
  assumes "map_sum id (\<lambda>(a, e, r). (a, e)) A = map_sum id (\<lambda>(a, e, r). (a, e)) B"
  shows "map_sum id fst (case A of Inl e \<Rightarrow> Inl e | Inr (a, te, f5) \<Rightarrow> Inr (G a te, f5)) =
         map_sum id fst (case B of Inl e \<Rightarrow> Inl e | Inr (a, te, f5) \<Rightarrow> Inr (G a te, f5))"
  using assms by (cases A; cases B) auto

text \<open>
  C10. Two frame bodies with the same seven lines up to the ATOMS header, whose later
  lines differ at most in the fields 0 (atom id) and 5 to 7 (velocities), give the same
  \<^verbatim>\<open>frame_content\<close>, or raise the same exception.
\<close>

theorem atom_id_velocity_noninterference:
  assumes "take 7 f = take 7 g"
    and "list_all2 agree_outside_id_velocity (drop 7 f) (drop 7 g)"
  shows "map_sum id fst (parse_frame tm df t f) = map_sum id fst (parse_frame tm df t g)"
proof -
  have h: "line_at f 1 = line_at g 1" "line_at f 3 = line_at g 3"
    "line_at f 4 = line_at g 4" "line_at f 5 = line_at g 5"
    using line_at_take [OF assms(1)] by simp_all
  have r: "map_sum id (\<lambda>(a, e, r). (a, e)) (read_atoms tm n (drop 7 f) [] float_zero) =
      map_sum id (\<lambda>(a, e, r). (a, e)) (read_atoms tm n (drop 7 g) [] float_zero)" for n
    by (rule agree_read_atoms [OF assms(2)])
  show ?thesis
  proof (cases "py_int (strip (line_at g 1))")
    case (Inl e)
    then show ?thesis unfolding parse_frame_eq h by simp
  next
    case n: (Inr n)
    show ?thesis
    proof (cases "unpack2 (split (line_at g 3))")
      case (Inl e)
      then show ?thesis unfolding parse_frame_eq h using n by simp
    next
      case x: (Inr bx)
      show ?thesis
      proof (cases "unpack2 (split (line_at g 4))")
        case (Inl e)
        then show ?thesis unfolding parse_frame_eq h using n x by (simp split: prod.splits)
      next
        case y: (Inr bw)
        show ?thesis
        proof (cases "unpack2 (split (line_at g 5))")
          case (Inl e)
          then show ?thesis
            unfolding parse_frame_eq h using n x y by (simp split: prod.splits)
        next
          case z: (Inr bz)
          obtain xlo xhi ylo yhi zlo zhi where
            b: "bx = (xlo, xhi)" "bw = (ylo, yhi)" "bz = (zlo, zhi)"
            by (cases bx, cases bw, cases bz) blast
          show ?thesis
            unfolding parse_frame_eq h using n x y z b
            by (simp add: agree_tail [OF r])
        qed
      qed
    qed
  qed
qed

theorem atom_id_velocity_noninterference_witness:
  "map_sum id fst (parse_frame (ATOM_TYPE_MAP example_config) example_file 0
      (drop 2 (frame_head ''0'' ''3'') @ [atom1, atom2, atom3])) =
   map_sum id fst (parse_frame (ATOM_TYPE_MAP example_config) example_file 0
      (drop 2 (frame_head ''0'' ''3'') @ [atom1_other, atom2, atom3])) \<and>
   atom1 \<noteq> atom1_other"
proof -
  have a1: "agree_outside_id_velocity atom1 atom1_other" by code_simp
  have a2: "agree_outside_id_velocity atom2 atom2" by code_simp
  have a3: "agree_outside_id_velocity atom3 atom3" by code_simp
  have h1: "take 7 (drop 2 (frame_head ''0'' ''3'') @ [atom1, atom2, atom3]) =
      take 7 (drop 2 (frame_head ''0'' ''3'') @ [atom1_other, atom2, atom3])"
    by (simp add: frame_head_def)
  have h2: "list_all2 agree_outside_id_velocity
      (drop 7 (drop 2 (frame_head ''0'' ''3'') @ [atom1, atom2, atom3]))
      (drop 7 (drop 2 (frame_head ''0'' ''3'') @ [atom1_other, atom2, atom3]))"
    by (simp add: frame_head_def a1 a2 a3)
  have d: "atom1 \<noteq> atom1_other" by (simp add: atom1_def atom1_other_def)
  from atom_id_velocity_noninterference [OF h1 h2] d show ?thesis by blast
qed

section \<open>The skip branch\<close>

text \<open>
  The branch of an unwanted frame reads the six lines after the timestep line, then the
  ATOMS header, and takes its count from field 0 of the line after that, which is the
  first atom line; it then reads that many further lines.
\<close>

lemma skip_frame_reads_atom_line:
  assumes "line_at f 6 \<noteq> []" and "split (line_at f 7) = tok # toks" and "py_int tok = Inr k"
  shows "skip_frame f = Inr (Some (drop (nat k + 8) f))"
proof -
  have r6: "readline (drop 6 f) = (line_at f 6, drop 7 f)"
    using readline_drop [of 6 f] by simp
  have r7: "readline (drop 7 f) = (line_at f 7, drop 8 f)"
    using readline_drop [of 7 f] by simp
  show ?thesis
    using assms by (simp add: skip_frame_def skip_lines_drop r6 r7)
qed

text \<open>
  C3. The skip branch should read the declared atom count \<open>N\<close> and skip \<open>N\<close> lines, so
  that it leaves the stream where the full parse of the same frame leaves it. On a frame
  of three atoms with the ids 1, 2, 3 it stops in front of the third atom line, while the
  full parse stops after it.
\<close>

theorem skip_leaves_atom_lines:
  "skip_frame (drop 2 (frame_head ''50'' ''3'') @ [atom1, atom2, atom3] @
      frame_head ''100'' ''1'' @ [atom1]) =
     Inr (Some (atom3 # frame_head ''100'' ''1'' @ [atom1])) \<and>
   map_sum id snd (parse_frame (ATOM_TYPE_MAP example_config) example_file 50
      (drop 2 (frame_head ''50'' ''3'') @ [atom1, atom2, atom3] @
       frame_head ''100'' ''1'' @ [atom1])) =
     Inr (frame_head ''100'' ''1'' @ [atom1])"
proof -
  have 1: "skip_frame (drop 2 (frame_head ''50'' ''3'') @ [atom1, atom2, atom3] @
      frame_head ''100'' ''1'' @ [atom1]) =
     Inr (Some (atom3 # frame_head ''100'' ''1'' @ [atom1]))"
    by code_simp
  have 2: "map_sum id snd (parse_frame (ATOM_TYPE_MAP example_config) example_file 50
      (drop 2 (frame_head ''50'' ''3'') @ [atom1, atom2, atom3] @
       frame_head ''100'' ''1'' @ [atom1])) =
     Inr (frame_head ''100'' ''1'' @ [atom1])"
    by code_simp
  from 1 2 show ?thesis by (rule conjI)
qed

text \<open>
  C1. Every wanted frame of the stream should give one block. With stride 100, a stream
  holds a one-atom frame at timestep 50 and then a frame at timestep 100: the skip
  branch of the first frame reads the marker line of the second, and the run returns no
  block, although the second frame alone gives its block.
\<close>

theorem selected_frame_lost:
  "process_dump_file example_config example_file
     (frame_head ''50'' ''1'' @ [atom1] @ frame_head ''100'' ''1'' @ [atom1]) = Inr [] \<and>
   process_dump_file example_config example_file (frame_head ''100'' ''1'' @ [atom1]) =
     Inr [join_nl
       [''1'',
        ''Lattice='' @ [dquote] @ ''10.0 0.0 0.0 0.0 5.0 0.0 0.0 0.0 2.0'' @ [dquote] @
        '' Properties=species:S:1:pos:R:3:forces:R:3 name=Amorphous_Bulk category=run-100'' @
        '' energy=1.0 pbc='' @ [dquote] @ ''T T T'' @ [dquote],
        ''C 0.00000000 0.00000000 0.00000000 0.50000000 -0.50000000 0.25000000'']]"
proof -
  have 1: "process_dump_file example_config example_file
     (frame_head ''50'' ''1'' @ [atom1] @ frame_head ''100'' ''1'' @ [atom1]) = Inr []"
    by code_simp
  have 2: "process_dump_file example_config example_file (frame_head ''100'' ''1'' @ [atom1]) =
     Inr [join_nl
       [''1'',
        ''Lattice='' @ [dquote] @ ''10.0 0.0 0.0 0.0 5.0 0.0 0.0 0.0 2.0'' @ [dquote] @
        '' Properties=species:S:1:pos:R:3:forces:R:3 name=Amorphous_Bulk category=run-100'' @
        '' energy=1.0 pbc='' @ [dquote] @ ''T T T'' @ [dquote],
        ''C 0.00000000 0.00000000 0.00000000 0.50000000 -0.50000000 0.25000000'']]"
    by code_simp
  from 1 2 show ?thesis by (rule conjI)
qed

section \<open>Number formats\<close>

text \<open>
  C5 as stated fails: for the bounds \<open>(0, 10)\<close>, \<open>(0, 5)\<close>, \<open>(0, 2)\<close> the block does not
  contain the lattice values \<^verbatim>\<open>10 0.0 0.0 0.0 5 0.0 0.0 0.0 2\<close>; the edge lengths are floats
  and print as \<^verbatim>\<open>10.0\<close>, \<^verbatim>\<open>5.0\<close> and \<^verbatim>\<open>2.0\<close>.
\<close>

theorem lattice_values_counterexample:
  "process_dump_file example_config example_file
     (frame_head ''0'' ''3'' @ [atom1, atom2, atom3]) = Inr [example_block] \<and>
   \<not> str_in ''10 0.0 0.0 0.0 5 0.0 0.0 0.0 2'' example_block"
proof -
  have 1: "process_dump_file example_config example_file
     (frame_head ''0'' ''3'' @ [atom1, atom2, atom3]) = Inr [example_block]"
    by code_simp
  have 2: "\<not> str_in ''10 0.0 0.0 0.0 5 0.0 0.0 0.0 2'' example_block"
    by code_simp
  from 1 2 show ?thesis by (rule conjI)
qed

lemma bounds_0_10:
  "unpack2 [''0'', ''10''] = Inr (Finite False 0 0, Finite False 5629499534213120 (- 49))"
  by code_simp

lemma bounds_0_5:
  "unpack2 [''0'', ''5''] = Inr (Finite False 0 0, Finite False 5629499534213120 (- 50))"
  by code_simp

lemma bounds_0_2:
  "unpack2 [''0'', ''2''] = Inr (Finite False 0 0, Finite False 4503599627370496 (- 51))"
  by code_simp

lemma str_10: "float_str (float_sub (Finite False 5629499534213120 (- 49)) (Finite False 0 0)) = ''10.0''"
  by code_simp

lemma str_5: "float_str (float_sub (Finite False 5629499534213120 (- 50)) (Finite False 0 0)) = ''5.0''"
  by code_simp

lemma str_2: "float_str (float_sub (Finite False 4503599627370496 (- 51)) (Finite False 0 0)) = ''2.0''"
  by code_simp

text \<open>
  C5, amended. For a wanted frame whose three bounds lines read as the floats of
  \<^verbatim>\<open>0 10\<close>, \<^verbatim>\<open>0 5\<close> and \<^verbatim>\<open>0 2\<close>, the metadata line starts with
  \<^verbatim>\<open>Lattice="10.0 0.0 0.0 0.0 5.0 0.0 0.0 0.0 2.0"\<close>.
\<close>

theorem lattice_values:
  assumes "parse_frame tm df t f = Inr (fc, rest)"
    and "unpack2 (split (line_at f 3)) = unpack2 [''0'', ''10'']"
    and "unpack2 (split (line_at f 4)) = unpack2 [''0'', ''5'']"
    and "unpack2 (split (line_at f 5)) = unpack2 [''0'', ''2'']"
  shows "\<exists>n tail atom_lines.
    fc = str_int n #
         (''Lattice='' @ [dquote] @ ''10.0 0.0 0.0 0.0 5.0 0.0 0.0 0.0 2.0'' @ [dquote] @ tail) #
         atom_lines"
proof -
  from parse_frame_Inr [OF assms(1)] obtain n xlo xhi ylo yhi zlo zhi ps where
    x: "unpack2 (split (line_at f 3)) = Inr (xlo, xhi)" and
    y: "unpack2 (split (line_at f 4)) = Inr (ylo, yhi)" and
    z: "unpack2 (split (line_at f 5)) = Inr (zlo, zhi)" and
    fc: "fc = frame_content n (float_sub xhi xlo) (float_sub yhi ylo) (float_sub zhi zlo)
           (category df t) (foldl float_add float_zero (map snd ps)) (map fst ps)"
    by blast
  have lx: "float_str (float_sub xhi xlo) = ''10.0''"
    using x assms(2) bounds_0_10 str_10 by simp
  have ly: "float_str (float_sub yhi ylo) = ''5.0''"
    using y assms(3) bounds_0_5 str_5 by simp
  have lz: "float_str (float_sub zhi zlo) = ''2.0''"
    using z assms(4) bounds_0_2 str_2 by simp
  have "fc = str_int n #
      (''Lattice='' @ [dquote] @ ''10.0 0.0 0.0 0.0 5.0 0.0 0.0 0.0 2.0'' @ [dquote] @
       ('' '' @ ''Properties=species:S:1:pos:R:3:forces:R:3 '' @
        ''name=Amorphous_Bulk category='' @ category df t @ '' '' @
        ''energy='' @ float_str (foldl float_add float_zero (map snd ps)) @ '' pbc='' @
        [dquote] @ ''T T T'' @ [dquote])) #
      map atom_line (map fst ps)"
    unfolding fc frame_content_def metadata_line_def lx ly lz by simp
  then show ?thesis by blast
qed

theorem lattice_values_witness:
  "\<exists>n tail atom_lines.
    [''1'', ''Lattice='' @ [dquote] @ ''10.0 0.0 0.0 0.0 5.0 0.0 0.0 0.0 2.0'' @ [dquote] @
        '' Properties=species:S:1:pos:R:3:forces:R:3 name=Amorphous_Bulk category=run-0'' @
        '' energy=1.0 pbc='' @ [dquote] @ ''T T T'' @ [dquote],
        ''C 0.00000000 0.00000000 0.00000000 0.50000000 -0.50000000 0.25000000''] =
     str_int n #
       (''Lattice='' @ [dquote] @ ''10.0 0.0 0.0 0.0 5.0 0.0 0.0 0.0 2.0'' @ [dquote] @ tail) #
       atom_lines"
proof -
  have p: "parse_frame (ATOM_TYPE_MAP example_config) example_file 0
      (drop 2 (frame_head ''0'' ''1'') @ [atom1]) =
    Inr ([''1'', ''Lattice='' @ [dquote] @ ''10.0 0.0 0.0 0.0 5.0 0.0 0.0 0.0 2.0'' @ [dquote] @
        '' Properties=species:S:1:pos:R:3:forces:R:3 name=Amorphous_Bulk category=run-0'' @
        '' energy=1.0 pbc='' @ [dquote] @ ''T T T'' @ [dquote],
        ''C 0.00000000 0.00000000 0.00000000 0.50000000 -0.50000000 0.25000000''], [])"
    by code_simp
  have b3: "unpack2 (split (line_at (drop 2 (frame_head ''0'' ''1'') @ [atom1]) 3)) =
      unpack2 [''0'', ''10'']" by code_simp
  have b4: "unpack2 (split (line_at (drop 2 (frame_head ''0'' ''1'') @ [atom1]) 4)) =
      unpack2 [''0'', ''5'']" by code_simp
  have b5: "unpack2 (split (line_at (drop 2 (frame_head ''0'' ''1'') @ [atom1]) 5)) =
      unpack2 [''0'', ''2'']" by code_simp
  from lattice_values [OF p b3 b4 b5] show ?thesis .
qed

lemma is_digit_char_of: "0 \<le> d \<Longrightarrow> d \<le> 9 \<Longrightarrow> is_digit (char_of (48 + d :: int))"
  by (simp add: is_digit_def)

lemma dec_digits_digits:
  "0 \<le> n \<Longrightarrow> list_all is_digit (dec_digits n) \<and> dec_digits n \<noteq> []"
proof (induction n rule: dec_digits.induct)
  case (1 n)
  show ?case
  proof (cases "n < 10")
    case True
    with "1.prems" show ?thesis
      by (subst (1 2) dec_digits.simps) (simp add: is_digit_char_of)
  next
    case False
    then have "0 \<le> n div 10" by simp
    with "1.IH" False have "list_all is_digit (dec_digits (n div 10))" by simp
    moreover have "is_digit (char_of (48 + n mod 10))"
      by (rule is_digit_char_of) simp_all
    ultimately show ?thesis using False
      by (subst (1 2) dec_digits.simps) simp
  qed
qed

lemma dec_digits_length:
  "0 \<le> n \<Longrightarrow> n < 10 ^ k \<Longrightarrow> 0 < k \<Longrightarrow> length (dec_digits n) \<le> k"
proof (induction n arbitrary: k rule: dec_digits.induct)
  case (1 n)
  show ?case
  proof (cases "n < 10")
    case True
    with "1.prems" show ?thesis by (subst dec_digits.simps) simp
  next
    case False
    obtain j where k: "k = Suc j" using "1.prems"(3) by (cases k) auto
    have "j \<noteq> 0" using False "1.prems"(2) k by (cases j) auto
    moreover have "n div 10 < 10 ^ j" using "1.prems"(2) k by simp
    moreover have "0 \<le> n div 10" using "1.prems"(1) by simp
    ultimately have "length (dec_digits (n div 10)) \<le> j"
      using "1.IH" [of j] False by simp
    then show ?thesis using False k by (subst dec_digits.simps) simp
  qed
qed

lemma is_digit_zero: "is_digit (CHR ''0'')"
  by (simp add: is_digit_def)

lemma not_digit_point: "\<not> is_digit (CHR ''.'')"
  by (simp add: is_digit_def)

lemma not_digit_minus: "\<not> is_digit (CHR ''-'')"
  by (simp add: is_digit_def)

lemma pad_zeros_8:
  assumes "0 \<le> r" and "r < 10 ^ 8"
  shows "length (pad_zeros 8 (dec_digits r)) = 8 \<and> list_all is_digit (pad_zeros 8 (dec_digits r))"
proof -
  have "length (dec_digits r) \<le> 8" using dec_digits_length [OF assms(1), of 8] assms(2) by simp
  moreover have "list_all is_digit (dec_digits r)" using dec_digits_digits [OF assms(1)] by simp
  ultimately show ?thesis by (auto simp: pad_zeros_def is_digit_zero list_all_iff)
qed

lemma is_fixed8_shape:
  assumes "ip \<noteq> []" and "list_all is_digit ip" and "length fp = 8" and "list_all is_digit fp"
  shows "is_fixed8 (ip @ ''.'' @ fp)" and "is_fixed8 (''-'' @ ip @ ''.'' @ fp)"
proof -
  have t: "takeWhile is_digit (ip @ CHR ''.'' # fp) = ip"
    using assms(2) by (simp add: takeWhile_tail not_digit_point list_all_iff)
  have d: "dropWhile is_digit (ip @ CHR ''.'' # fp) = CHR ''.'' # fp"
    using assms(2) by (simp add: dropWhile_append3 not_digit_point list_all_iff)
  obtain c cs where ip: "ip = c # cs" using assms(1) by (cases ip) auto
  then have "is_digit c" using assms(2) by simp
  then have c: "c \<noteq> CHR ''-''" using not_digit_minus by auto
  show "is_fixed8 (ip @ ''.'' @ fp)"
    using t d assms(1,3,4) c unfolding is_fixed8_def Let_def ip by simp
  show "is_fixed8 (''-'' @ ip @ ''.'' @ fp)"
    using t d assms(1,3,4) unfolding is_fixed8_def Let_def by simp
qed

lemma round_half_even_nonneg: "0 \<le> n \<Longrightarrow> 0 < d \<Longrightarrow> 0 \<le> round_half_even n d"
  by (simp add: round_half_even_def Let_def pos_imp_zdiv_nonneg_iff)

lemma scale2_nonneg:
  "0 \<le> n \<Longrightarrow> 0 < d \<Longrightarrow> scale2 n d e = (n', d') \<Longrightarrow> 0 \<le> n' \<and> 0 < d'"
  by (auto simp: scale2_def split: if_splits)

lemma format_8f_fixed:
  assumes "float_ok x"
  shows "fixed8_or_nonfinite (format_8f x)"
proof (cases x)
  case (Finite neg m e)
  then have m: "0 \<le> m" using assms by (simp add: float_ok_def)
  obtain n d where s: "scale2 (m * 10 ^ 8) 1 (- e) = (n, d)" by (cases "scale2 (m * 10 ^ 8) 1 (- e)")
  have "0 \<le> n \<and> 0 < d" using scale2_nonneg [OF _ _ s] m by simp
  then have q: "0 \<le> round_half_even n d" by (simp add: round_half_even_nonneg)
  define q where "q = round_half_even n d"
  have q0: "0 \<le> q" using q by (simp add: q_def)
  have ip: "dec_digits (q div 10 ^ 8) \<noteq> []" "list_all is_digit (dec_digits (q div 10 ^ 8))"
    using dec_digits_digits [of "q div 10 ^ 8"] q0 by (simp_all add: pos_imp_zdiv_nonneg_iff)
  have fp: "length (pad_zeros 8 (dec_digits (q mod 10 ^ 8))) = 8"
    "list_all is_digit (pad_zeros 8 (dec_digits (q mod 10 ^ 8)))"
    using pad_zeros_8 [of "q mod 10 ^ 8"] by simp_all
  have f: "format_8f x = (if neg then ''-'' else []) @ dec_digits (q div 10 ^ 8) @ ''.'' @
      pad_zeros 8 (dec_digits (q mod 10 ^ 8))"
    using Finite s by (simp add: format_8f_def Let_def q_def)
  show ?thesis
    unfolding fixed8_or_nonfinite_def f
    using is_fixed8_shape [OF ip fp] by (cases neg) simp_all
next
  case (Infinity neg)
  then show ?thesis by (simp add: fixed8_or_nonfinite_def format_8f_def)
next
  case NaN
  then show ?thesis by (simp add: fixed8_or_nonfinite_def format_8f_def)
qed

lemma digits_fold_nonneg:
  "0 \<le> a \<Longrightarrow> list_all is_digit ds \<Longrightarrow> 0 \<le> foldl (\<lambda>a c. 10 * a + digit_val c) a ds"
proof (induction ds arbitrary: a)
  case Nil
  then show ?case by simp
next
  case (Cons c ds)
  then have "0 \<le> 10 * a + digit_val c" by (simp add: is_digit_def digit_val_def)
  with Cons show ?case by simp
qed

lemma digits_val_nonneg: "list_all is_digit ds \<Longrightarrow> 0 \<le> digits_val ds"
  unfolding digits_val_def by (rule digits_fold_nonneg) simp

lemma takeWhile_digits: "list_all is_digit (takeWhile is_digit t)"
  by (simp add: list_all_iff) (meson set_takeWhileD)

lemma parse_decimal_shape:
  assumes "(if ip @ fp = [] then None
     else (case r2 of
             [] \<Rightarrow> Some (digits_val (ip @ fp), - int (length fp))
           | c # cs \<Rightarrow>
               if c = CHR ''e'' \<or> c = CHR ''E''
               then (case take_sign cs of (eneg, ed) \<Rightarrow>
                       if ed = [] \<or> \<not> list_all is_digit ed then None
                       else Some (digits_val (ip @ fp),
                                  (if eneg then - digits_val ed else digits_val ed)
                                    - int (length fp)))
               else None)) = Some (dv, ex)"
  shows "dv = digits_val (ip @ fp)"
  using assms by (auto split: if_splits list.splits prod.splits)

lemma parse_decimal_nonneg:
  assumes "parse_decimal t = Some (dv, ex)"
  shows "0 \<le> dv"
proof -
  define ip where "ip = takeWhile is_digit t"
  define fp where "fp = (case dropWhile is_digit t of [] \<Rightarrow> []
    | c # cs \<Rightarrow> if c = CHR ''.'' then takeWhile is_digit cs else [])"
  have "list_all is_digit ip" by (simp add: ip_def takeWhile_digits)
  moreover have "list_all is_digit fp"
    by (simp add: fp_def takeWhile_digits split: list.splits)
  ultimately have "0 \<le> digits_val (ip @ fp)" by (simp add: digits_val_nonneg)
  moreover have "dv = digits_val (ip @ fp)"
    using assms unfolding parse_decimal_def Let_def ip_def fp_def
    by (rule parse_decimal_shape)
  ultimately show ?thesis by simp
qed

lemma round_double_ok:
  assumes "0 \<le> n" and "0 < d"
  shows "float_ok (round_double neg n d)"
proof -
  have "0 \<le> (case scale2 n d e of (n1, d1) \<Rightarrow> round_half_even n1 d1)" for e
  proof -
    obtain n1 d1 where s: "scale2 n d e = (n1, d1)" by (cases "scale2 n d e")
    from scale2_nonneg [OF assms s] show ?thesis
      by (simp add: s round_half_even_nonneg)
  qed
  then show ?thesis
    unfolding round_double_def Let_def by (simp add: float_ok_def)
qed

lemma py_float_ok:
  assumes "py_float s = Inr v"
  shows "float_ok v"
proof -
  from assms obtain t where t: "drop_underscores (strip s) = Some t"
    by (auto simp: py_float_def split: option.splits)
  obtain neg body where ts: "take_sign t = (neg, body)" by (cases "take_sign t")
  consider (inf) "v = Infinity neg" | (nan) "v = NaN"
    | (dec) dv ex where "parse_decimal body = Some (dv, ex)"
        "v = (if 0 \<le> ex then round_double neg (dv * 10 ^ nat ex) 1
              else round_double neg dv (10 ^ nat (- ex)))"
    using assms t ts by (auto simp: py_float_def split: if_splits option.splits)
  then show ?thesis
  proof cases
    case inf
    then show ?thesis by (simp add: float_ok_def)
  next
    case nan
    then show ?thesis by (simp add: float_ok_def)
  next
    case dec
    from parse_decimal_nonneg [OF dec(1)] have "0 \<le> dv" .
    then show ?thesis using dec(2) by (simp add: round_double_ok)
  qed
qed

lemma unpack3_ok:
  "unpack3 toks = Inr (x, y, z) \<Longrightarrow> float_ok x \<and> float_ok y \<and> float_ok z"
  by (auto simp: unpack3_def py_float_ok split: list.splits sum.splits)

lemma parse_atom_line_ok:
  assumes "parse_atom_line tm l = Inr ((sp, x, y, z, fx, fy, fz), en)"
  shows "list_all float_ok [x, y, z, fx, fy, fz]"
proof -
  from assms have "unpack3 (slice 2 5 (split l)) = Inr (x, y, z)"
    and "unpack3 (slice 8 11 (split l)) = Inr (fx, fy, fz)"
    by (auto simp: parse_atom_line_def Let_def split: sum.splits prod.splits if_splits)
  then show ?thesis using unpack3_ok by fastforce
qed

text \<open>
  C4, amended. In every block of a run the six numbers of each atom line are printed
  with the format \<^verbatim>\<open>.8f\<close>: each is in eight-decimal fixed-point notation, or is
  \<^verbatim>\<open>inf\<close>, \<^verbatim>\<open>-inf\<close> or \<^verbatim>\<open>nan\<close> for a value that is not finite. The three edge lengths
  and the total energy on the metadata line are printed by \<^verbatim>\<open>str\<close>, and the other lattice
  entries are the text \<^verbatim>\<open>0.0\<close>.
\<close>

theorem number_formats:
  assumes "process_dump_file cfg df f = Inr out" and "blk \<in> set out"
  shows "\<exists>n lx ly lz cat te atoms_data.
    blk = join_nl (str_int n #
      (''Lattice='' @ [dquote] @ float_str lx @ '' 0.0 0.0 0.0 '' @ float_str ly @
       '' 0.0 0.0 0.0 '' @ float_str lz @ [dquote] @
       '' Properties=species:S:1:pos:R:3:forces:R:3 name=Amorphous_Bulk category='' @ cat @
       '' energy='' @ float_str te @ '' pbc='' @ [dquote] @ ''T T T'' @ [dquote]) #
      map atom_line atoms_data) \<and>
    (\<forall>a \<in> set atoms_data. \<exists>sp x y z fx fy fz.
       a = (sp, x, y, z, fx, fy, fz) \<and>
       atom_line a =
         sp @ '' '' @ format_8f x @ '' '' @ format_8f y @ '' '' @ format_8f z @ '' '' @
         format_8f fx @ '' '' @ format_8f fy @ '' '' @ format_8f fz \<and>
       list_all (\<lambda>v. fixed8_or_nonfinite (format_8f v)) [x, y, z, fx, fy, fz])"
proof -
  from process_blocks [OF assms] obtain t n xlo xhi ylo yhi zlo zhi ps f' where
    len: "nat n \<le> length (drop 7 f')" and
    ps: "map (parse_atom_line (ATOM_TYPE_MAP cfg)) (take (nat n) (drop 7 f')) = map Inr ps" and
    blk: "blk = join_nl (frame_content n (float_sub xhi xlo) (float_sub yhi ylo)
           (float_sub zhi zlo) (category df t) (foldl float_add float_zero (map snd ps))
           (map fst ps))"
    by blast
  have b: "blk = join_nl (str_int n #
      (''Lattice='' @ [dquote] @ float_str (float_sub xhi xlo) @ '' 0.0 0.0 0.0 '' @
       float_str (float_sub yhi ylo) @ '' 0.0 0.0 0.0 '' @ float_str (float_sub zhi zlo) @
       [dquote] @
       '' Properties=species:S:1:pos:R:3:forces:R:3 name=Amorphous_Bulk category='' @
       category df t @
       '' energy='' @ float_str (foldl float_add float_zero (map snd ps)) @ '' pbc='' @
       [dquote] @ ''T T T'' @ [dquote]) #
      map atom_line (map fst ps))"
    unfolding blk frame_content_def metadata_line_def by simp
  have a: "\<exists>sp x y z fx fy fz.
       a = (sp, x, y, z, fx, fy, fz) \<and>
       atom_line a =
         sp @ '' '' @ format_8f x @ '' '' @ format_8f y @ '' '' @ format_8f z @ '' '' @
         format_8f fx @ '' '' @ format_8f fy @ '' '' @ format_8f fz \<and>
       list_all (\<lambda>v. fixed8_or_nonfinite (format_8f v)) [x, y, z, fx, fy, fz]"
    if "a \<in> set (map fst ps)" for a
  proof -
    from that obtain i where i: "i < length ps" "a = fst (ps ! i)"
      by (auto simp: in_set_conv_nth)
    obtain sp x y z fx fy fz where c: "a = (sp, x, y, z, fx, fy, fz)" by (cases a) auto
    have "parse_atom_line (ATOM_TYPE_MAP cfg) (take (nat n) (drop 7 f') ! i) = Inr (ps ! i)"
      using map_Inr_nth [OF ps i(1)] .
    then have "parse_atom_line (ATOM_TYPE_MAP cfg) (take (nat n) (drop 7 f') ! i) =
        Inr ((sp, x, y, z, fx, fy, fz), snd (ps ! i))"
      using i(2) c by (metis prod.collapse)
    from parse_atom_line_ok [OF this] have "list_all float_ok [x, y, z, fx, fy, fz]" .
    then have "list_all (\<lambda>v. fixed8_or_nonfinite (format_8f v)) [x, y, z, fx, fy, fz]"
      by (simp add: format_8f_fixed)
    then show ?thesis using c by (simp add: atom_line_def)
  qed
  from b a show ?thesis by blast
qed

theorem number_formats_witness:
  "\<exists>n lx ly lz cat te atoms_data.
    example_block = join_nl (str_int n #
      (''Lattice='' @ [dquote] @ float_str lx @ '' 0.0 0.0 0.0 '' @ float_str ly @
       '' 0.0 0.0 0.0 '' @ float_str lz @ [dquote] @
       '' Properties=species:S:1:pos:R:3:forces:R:3 name=Amorphous_Bulk category='' @ cat @
       '' energy='' @ float_str te @ '' pbc='' @ [dquote] @ ''T T T'' @ [dquote]) #
      map atom_line atoms_data)"
proof -
  have m: "example_block \<in> set [example_block]" by simp
  from number_formats [OF example_run m] show ?thesis by blast
qed

text \<open>
  C4 as stated fails: on the metadata line of the example block the edge length 10 and
  the total energy 3 are printed by \<^verbatim>\<open>str\<close> as \<^verbatim>\<open>10.0\<close> and \<^verbatim>\<open>3.0\<close>, which is not
  eight-decimal notation.
\<close>

theorem number_formats_counterexample:
  "process_dump_file example_config example_file
     (frame_head ''0'' ''3'' @ [atom1, atom2, atom3]) = Inr [example_block] \<and>
   example_metadata =
     metadata_line (Finite False 5629499534213120 (- 49)) (Finite False 5629499534213120 (- 50))
       (Finite False 4503599627370496 (- 51)) ''run-0'' (Finite False 6755399441055744 (- 51)) \<and>
   float_str (Finite False 5629499534213120 (- 49)) = ''10.0'' \<and>
   \<not> is_fixed8 (float_str (Finite False 5629499534213120 (- 49))) \<and>
   float_str (Finite False 6755399441055744 (- 51)) = ''3.0'' \<and>
   \<not> is_fixed8 (float_str (Finite False 6755399441055744 (- 51)))"
proof -
  have 1: "process_dump_file example_config example_file
     (frame_head ''0'' ''3'' @ [atom1, atom2, atom3]) = Inr [example_block]"
    by code_simp
  have 2: "example_metadata =
     metadata_line (Finite False 5629499534213120 (- 49)) (Finite False 5629499534213120 (- 50))
       (Finite False 4503599627370496 (- 51)) ''run-0'' (Finite False 6755399441055744 (- 51))"
    by code_simp
  have 3: "float_str (Finite False 5629499534213120 (- 49)) = ''10.0''" by code_simp
  have 4: "\<not> is_fixed8 (float_str (Finite False 5629499534213120 (- 49)))" by code_simp
  have 5: "float_str (Finite False 6755399441055744 (- 51)) = ''3.0''" by code_simp
  have 6: "\<not> is_fixed8 (float_str (Finite False 6755399441055744 (- 51)))" by code_simp
  from 1 2 3 4 5 6 show ?thesis by blast
qed

end
